theory Spec2Isabelle
  imports Complex_Main "HOL-Library.AList" "HOL-Library.Sublist"
begin

section \<open>The Python runtime operations used by ffprobe.py\<close>

text \<open>
  The module \<^verbatim>\<open>ffprobe3/ffprobe.py\<close> is embedded function by function. Text is a
  \<^typ>\<open>string\<close>, read as a sequence of code points below 256; the whitespace and digit
  classes below are Python's classes restricted to that range. Exceptions are values
  of the type \<open>error\<close>, and a function that can raise returns \<open>error + 'a\<close>.
\<close>

datatype error =
  ValueError | ZeroDivisionError | OverflowError | TypeError | AttributeError | FFProbeError

subsection \<open>Strings\<close>

text \<open>\<^verbatim>\<open>str.isspace\<close> on one character: TAB..CR, FS..US, SPACE, NEL and NBSP.\<close>

definition py_isspace :: "char \<Rightarrow> bool" where
  "py_isspace c = (of_char c \<in> {9, 10, 11, 12, 13, 28, 29, 30, 31, 32, 133, 160 :: nat})"

text \<open>\<^verbatim>\<open>s.strip()\<close>\<close>

definition strip :: "string \<Rightarrow> string" where
  "strip s = rev (dropWhile py_isspace (rev (dropWhile py_isspace s)))"

text \<open>\<^verbatim>\<open>s.split(c)\<close> for a one-character separator: a cut at every occurrence.\<close>

fun py_split :: "char \<Rightarrow> string \<Rightarrow> string list" where
  "py_split c [] = [[]]"
| "py_split c (x # xs) =
     (if x = c then [] # py_split c xs
      else (case py_split c xs of [] \<Rightarrow> [[x]] | w # ws \<Rightarrow> (x # w) # ws))"

text \<open>\<^verbatim>\<open>sub in s\<close>\<close>

fun substring_in :: "string \<Rightarrow> string \<Rightarrow> bool" where
  "substring_in sub [] = (sub = [])"
| "substring_in sub (x # xs) = (prefix sub (x # xs) \<or> substring_in sub xs)"

subsection \<open>Integers from text\<close>

text \<open>
  \<^verbatim>\<open>int\<close> and \<^verbatim>\<open>float\<close> drop the whitespace around their argument by a narrower
  class than \<^verbatim>\<open>strip\<close>: the separators FS..US are not in it.
\<close>

definition num_isspace :: "char \<Rightarrow> bool" where
  "num_isspace c = (of_char c \<in> {9, 10, 11, 12, 13, 32, 133, 160 :: nat})"

definition num_strip :: "string \<Rightarrow> string" where
  "num_strip s = rev (dropWhile num_isspace (rev (dropWhile num_isspace s)))"

definition is_digit :: "char \<Rightarrow> bool" where
  "is_digit c = (48 \<le> (of_char c :: nat) \<and> (of_char c :: nat) \<le> 57)"

definition digit_val :: "char \<Rightarrow> int" where
  "digit_val c = int (of_char c) - 48"

fun no_double_underscore :: "string \<Rightarrow> bool" where
  "no_double_underscore (a # b # r) =
     (\<not> (a = CHR ''_'' \<and> b = CHR ''_'') \<and> no_double_underscore (b # r))"
| "no_double_underscore _ = True"

text \<open>
  A digit part: digits, with single underscores allowed between two digits only.
\<close>

definition digit_part :: "string \<Rightarrow> bool" where
  "digit_part s =
     (s \<noteq> [] \<and> list_all (\<lambda>c. is_digit c \<or> c = CHR ''_'') s \<and>
      is_digit (hd s) \<and> is_digit (last s) \<and> no_double_underscore s)"

definition decimal_value :: "string \<Rightarrow> int" where
  "decimal_value s = foldl (\<lambda>acc c. 10 * acc + digit_val c) 0 (filter is_digit s)"

text \<open>
  \<^verbatim>\<open>int(s)\<close> for a string: surrounding whitespace is dropped, one sign is allowed,
  then a digit part. \<open>None\<close> is the \<^verbatim>\<open>ValueError\<close>. The parameter \<open>maxd\<close> is the
  interpreter's \<^verbatim>\<open>sys.get_int_max_str_digits()\<close>: \<open>0\<close> switches the limit off (as does
  an interpreter that predates it), and otherwise a string of more than 640 digits
  and more than \<open>maxd\<close> digits is refused.
\<close>

definition py_int :: "nat \<Rightarrow> string \<Rightarrow> int option" where
  "py_int maxd s =
     (let t = num_strip s;
          neg = (t \<noteq> [] \<and> hd t = CHR ''-'');
          body = (if t \<noteq> [] \<and> (hd t = CHR ''-'' \<or> hd t = CHR ''+'') then tl t else t);
          n = length (filter is_digit body)
      in if digit_part body \<and> \<not> (maxd \<noteq> 0 \<and> 640 < n \<and> maxd < n)
         then Some (if neg then - decimal_value body else decimal_value body)
         else None)"

subsection \<open>Floating point\<close>

text \<open>
  A Python float is an IEEE 754 double: a sign and a magnitude for the finite values
  (so that \<open>Finite True 0\<close> is \<^verbatim>\<open>-0.0\<close>), the two infinities, and NaN. The magnitude of
  a finite value is kept as the rational number it denotes.
\<close>

datatype pyfloat = Finite bool rat | Infinity bool | NaN

definition pow2 :: "int \<Rightarrow> rat" where
  "pow2 e = (if 0 \<le> e then 2 ^ nat e else 1 / 2 ^ nat (- e))"

text \<open>The number of binary digits of a positive integer.\<close>

function bitlen :: "int \<Rightarrow> int" where
  "bitlen n = (if n \<le> 0 then 0 else 1 + bitlen (n div 2))"
  by pat_completeness auto
termination
  by (relation "measure nat") auto

declare bitlen.simps [simp del]

text \<open>\<open>ilog2 x\<close> is the integer \<open>e\<close> with \<open>2^e \<le> x < 2^(e+1)\<close>, for \<open>x > 0\<close>.\<close>

definition ilog2 :: "rat \<Rightarrow> int" where
  "ilog2 x =
     (let (p, q) = quotient_of x;
          e0 = bitlen p - bitlen q
      in if pow2 e0 \<le> x then e0 else e0 - 1)"

definition round_half_even :: "rat \<Rightarrow> int" where
  "round_half_even x =
     (let f = \<lfloor>x\<rfloor>; d = x - of_int f
      in if d < 1 / 2 then f
         else if 1 / 2 < d then f + 1
         else if even f then f else f + 1)"

text \<open>
  Rounding a non-negative rational to the nearest double, ties to even: 53
  significant bits \<open>m\<close> at the exponent \<open>e\<close> of the last bit, which is at least that
  of the subnormal numbers. The result is \<open>None\<close> when the rounded value
  \<open>m * 2^e\<close> reaches \<open>2^1024\<close>, that is when \<open>m\<close> has more than \<open>1024 - e\<close> binary
  digits.
\<close>

definition round_double :: "rat \<Rightarrow> rat option" where
  "round_double x =
     (if x \<le> 0 then Some 0
      else let e = max (ilog2 x - 52) (- 1074);
               m = round_half_even (x / pow2 e)
           in if 1024 < bitlen m + e then None else Some (of_int m * pow2 e))"

text \<open>\<^verbatim>\<open>float(i)\<close> for an int, as \<^verbatim>\<open>float / int\<close> converts its right operand.\<close>

definition int_to_float :: "int \<Rightarrow> error + pyfloat" where
  "int_to_float i =
     (case round_double (of_int \<bar>i\<bar>) of
        None \<Rightarrow> Inl OverflowError
      | Some m \<Rightarrow> Inr (Finite (i < 0) m))"

text \<open>\<^verbatim>\<open>a / b\<close> for two ints: the exact quotient, correctly rounded.\<close>

definition int_truediv :: "int \<Rightarrow> int \<Rightarrow> error + pyfloat" where
  "int_truediv a b =
     (if b = 0 then Inl ZeroDivisionError
      else case round_double (of_int \<bar>a\<bar> / of_int \<bar>b\<bar>) of
             None \<Rightarrow> Inl OverflowError
           | Some m \<Rightarrow> Inr (Finite ((a < 0) \<noteq> (b < 0)) m))"

text \<open>\<^verbatim>\<open>x / y\<close> for two floats.\<close>

fun float_div :: "pyfloat \<Rightarrow> pyfloat \<Rightarrow> error + pyfloat" where
  "float_div x (Finite t n) =
     (if n = 0 then Inl ZeroDivisionError
      else case x of
             NaN \<Rightarrow> Inr NaN
           | Infinity s \<Rightarrow> Inr (Infinity (s \<noteq> t))
           | Finite s m \<Rightarrow>
               (case round_double (m / n) of
                  None \<Rightarrow> Inr (Infinity (s \<noteq> t))
                | Some r \<Rightarrow> Inr (Finite (s \<noteq> t) r)))"
| "float_div x NaN = Inr NaN"
| "float_div x (Infinity t) =
     (case x of Finite s m \<Rightarrow> Inr (Finite (s \<noteq> t) 0) | _ \<Rightarrow> Inr NaN)"

text \<open>The numbers \<^verbatim>\<open>operator.truediv\<close> meets in \<^verbatim>\<open>functools.reduce\<close>.\<close>

datatype number = NInt int | NFloat pyfloat

definition truediv :: "number \<Rightarrow> int \<Rightarrow> error + pyfloat" where
  "truediv acc b =
     (case acc of
        NInt a \<Rightarrow> int_truediv a b
      | NFloat x \<Rightarrow>
          (case int_to_float b of Inl e \<Rightarrow> Inl e | Inr y \<Rightarrow> float_div x y))"

text \<open>\<^verbatim>\<open>round(x)\<close> with one argument: an int is returned as it is, a float goes to the
  nearest int, ties to even.\<close>

definition py_round :: "number \<Rightarrow> error + int" where
  "py_round x =
     (case x of
        NInt i \<Rightarrow> Inr i
      | NFloat (Finite s m) \<Rightarrow> Inr (if s then - round_half_even m else round_half_even m)
      | NFloat (Infinity s) \<Rightarrow> Inl OverflowError
      | NFloat NaN \<Rightarrow> Inl ValueError)"

subsection \<open>Floats from text\<close>

definition pow10 :: "int \<Rightarrow> rat" where
  "pow10 e = (if 0 \<le> e then 10 ^ nat e else 1 / 10 ^ nat (- e))"

definition ascii_lower :: "char \<Rightarrow> char" where
  "ascii_lower c =
     (if 65 \<le> (of_char c :: nat) \<and> (of_char c :: nat) \<le> 90
      then char_of (of_char c + 32 :: nat) else c)"

text \<open>
  The underscore rule of \<^verbatim>\<open>float\<close>, checked with the previous character at hand: an
  underscore stands only after a digit and only before a digit.
\<close>

fun underscores_ok :: "char \<Rightarrow> string \<Rightarrow> bool" where
  "underscores_ok prev [] = (prev \<noteq> CHR ''_'')"
| "underscores_ok prev (c # cs) =
     ((if c = CHR ''_'' then is_digit prev else is_digit c \<or> prev \<noteq> CHR ''_'') \<and>
      underscores_ok c cs)"

text \<open>
  An unsigned decimal literal with its underscores removed: digits, an optional point
  and digits (one digit at least in all), an optional exponent with one digit at
  least. The result is the number written, not yet rounded.
\<close>

definition decimal_literal :: "string \<Rightarrow> rat option" where
  "decimal_literal s =
     (let ip = takeWhile is_digit s; r1 = dropWhile is_digit s;
          point = (r1 \<noteq> [] \<and> hd r1 = CHR ''.'');
          fp = (if point then takeWhile is_digit (tl r1) else []);
          r2 = (if point then dropWhile is_digit (tl r1) else r1);
          mant = of_int (decimal_value (ip @ fp)) * pow10 (- int (length fp))
      in if ip = [] \<and> fp = [] then None
         else if r2 = [] then Some mant
         else if hd r2 = CHR ''e'' \<or> hd r2 = CHR ''E'' then
           (let r3 = tl r2;
                eneg = (r3 \<noteq> [] \<and> hd r3 = CHR ''-'');
                ds = (if r3 \<noteq> [] \<and> (hd r3 = CHR ''-'' \<or> hd r3 = CHR ''+'') then tl r3 else r3)
            in if ds \<noteq> [] \<and> list_all is_digit ds
               then Some (mant * pow10 (if eneg then - decimal_value ds else decimal_value ds))
               else None)
         else None)"

text \<open>
  \<^verbatim>\<open>float(s)\<close> for a string; \<open>None\<close> is the \<^verbatim>\<open>ValueError\<close>. A literal too large for a
  double is an infinity, not an error.
\<close>

definition py_float :: "string \<Rightarrow> pyfloat option" where
  "py_float s =
     (let t = num_strip s;
          neg = (t \<noteq> [] \<and> hd t = CHR ''-'');
          body = (if t \<noteq> [] \<and> (hd t = CHR ''-'' \<or> hd t = CHR ''+'') then tl t else t);
          low = map ascii_lower body
      in if low = ''inf'' \<or> low = ''infinity'' then Some (Infinity neg)
         else if low = ''nan'' then Some NaN
         else if underscores_ok (CHR 0x00) t then
           (case decimal_literal (filter (\<lambda>c. c \<noteq> CHR ''_'') body) of
              None \<Rightarrow> None
            | Some v \<Rightarrow>
                (case round_double v of
                   None \<Rightarrow> Some (Infinity neg)
                 | Some m \<Rightarrow> Some (Finite neg m)))
         else None)"

section \<open>Instance dictionaries\<close>

text \<open>
  The state of an object of \<^verbatim>\<open>FFStream\<close> or \<^verbatim>\<open>FFContainer\<close> is its \<^verbatim>\<open>__dict__\<close>: the
  keys in insertion order, each with its value. A value is a string from a body line, or the
  derived frame rate, an int or \<^verbatim>\<open>None\<close>. Storing under a key that is present replaces
  its value in place, and a new key goes to the end: \<^const>\<open>AList.update\<close>.
\<close>

datatype pyval = PyStr string | PyInt int | PyNone

type_synonym pydict = "(string \<times> pyval) list"

text \<open>\<^verbatim>\<open>d.get(k, default)\<close>\<close>

definition dict_get :: "pydict \<Rightarrow> string \<Rightarrow> pyval \<Rightarrow> pyval" where
  "dict_get d k dflt = (case map_of d k of None \<Rightarrow> dflt | Some v \<Rightarrow> v)"

text \<open>\<^verbatim>\<open>int(v)\<close> and \<^verbatim>\<open>float(v)\<close> for a value of a dictionary.\<close>

definition int_of_val :: "nat \<Rightarrow> pyval \<Rightarrow> error + int" where
  "int_of_val maxd v =
     (case v of
        PyStr s \<Rightarrow> (case py_int maxd s of None \<Rightarrow> Inl ValueError | Some i \<Rightarrow> Inr i)
      | PyInt i \<Rightarrow> Inr i
      | PyNone \<Rightarrow> Inl TypeError)"

definition float_of_val :: "pyval \<Rightarrow> error + pyfloat" where
  "float_of_val v =
     (case v of
        PyStr s \<Rightarrow> (case py_float s of None \<Rightarrow> Inl ValueError | Some x \<Rightarrow> Inr x)
      | PyInt i \<Rightarrow> int_to_float i
      | PyNone \<Rightarrow> Inl TypeError)"

section \<open>Loops that can raise\<close>

text \<open>
  A \<^verbatim>\<open>for\<close> loop whose body updates a state and can raise: the first exception ends the
  loop and is the result.
\<close>

fun for_each :: "('s \<Rightarrow> 'a \<Rightarrow> error + 's) \<Rightarrow> 'a list \<Rightarrow> 's \<Rightarrow> error + 's" where
  "for_each body [] s = Inr s"
| "for_each body (x # xs) s =
     (case body s x of Inl e \<Rightarrow> Inl e | Inr s' \<Rightarrow> for_each body xs s')"

section \<open>Regular expressions\<close>

text \<open>
  The three patterns of the module are sequences of items, each a character class
  with a repetition range (\<open>None\<close> for no upper bound). \<open>re_match\<close> is the
  backtracking matcher at the start of a string: every item takes as many characters
  as it is allowed and gives them back one at a time until the rest matches; the
  result is the length matched. \<open>re_search\<close> is \<^verbatim>\<open>pattern.search\<close>: the leftmost start
  with a match, and \<open>re_group\<close> the text of that match.
\<close>

type_synonym re_item = "(char \<Rightarrow> bool) \<times> nat \<times> nat option"

fun first_some :: "'a option list \<Rightarrow> 'a option" where
  "first_some [] = None"
| "first_some (None # xs) = first_some xs"
| "first_some (Some x # xs) = Some x"

fun re_match :: "re_item list \<Rightarrow> string \<Rightarrow> nat option" where
  "re_match [] s = Some 0"
| "re_match ((cls, lo, hi) # items) s =
     (let n = length (takeWhile cls s);
          m = (case hi of None \<Rightarrow> n | Some h \<Rightarrow> min n h)
      in first_some
           (map (\<lambda>k. map_option (\<lambda>r. k + r) (re_match items (drop k s)))
              (rev [lo ..< Suc m])))"

definition re_search :: "re_item list \<Rightarrow> string \<Rightarrow> (nat \<times> nat) option" where
  "re_search items s =
     first_some
       (map (\<lambda>i. map_option (\<lambda>r. (i, r)) (re_match items (drop i s))) [0 ..< Suc (length s)])"

definition re_group :: "string \<Rightarrow> nat \<times> nat \<Rightarrow> string" where
  "re_group s m = take (snd m) (drop (fst m) s)"

definition lit :: "char \<Rightarrow> re_item" where
  "lit c = ((\<lambda>x. x = c), 1, Some 1)"

text \<open>\<^verbatim>\<open>re.compile(r'\ \d{1,8}\ [a-z]b')\<close>\<close>

definition bit_re :: "re_item list" where
  "bit_re =
     [lit CHR '' '', (is_digit, 1, Some 8), lit CHR '' '',
      ((\<lambda>c. 97 \<le> (of_char c :: nat) \<and> (of_char c :: nat) \<le> 122), 1, Some 1),
      lit CHR ''b'']"

text \<open>\<^verbatim>\<open>re.compile(r'Duration: [0=9]+:')\<close>: the class holds the three characters
  \<^verbatim>\<open>0\<close>, \<^verbatim>\<open>=\<close> and \<^verbatim>\<open>9\<close>.\<close>

definition stream_re :: "re_item list" where
  "stream_re =
     map lit ''Duration: '' @ [((\<lambda>c. c \<in> set ''0=9''), 1, None), lit CHR '':'']"

section \<open>FFStream\<close>

text \<open>
  The target list \<^verbatim>\<open>key, value, *_\<close> takes the first two pieces of the split line and
  drops the others; fewer than two pieces is a \<^verbatim>\<open>ValueError\<close>.
\<close>

definition stream_field :: "string \<Rightarrow> error + (string \<times> string)" where
  "stream_field line =
     (case py_split CHR ''='' (strip line) of
        key # value # _ \<Rightarrow> Inr (key, value)
      | _ \<Rightarrow> Inl ValueError)"

text \<open>
  \<^verbatim>\<open>functools.reduce(operator.truediv, map(int, parts))\<close> after its first element:
  \<^verbatim>\<open>map\<close> is lazy, so each part is converted just before it divides.
\<close>

fun reduce_truediv :: "nat \<Rightarrow> number \<Rightarrow> string list \<Rightarrow> error + number" where
  "reduce_truediv maxd acc [] = Inr acc"
| "reduce_truediv maxd acc (p # ps) =
     (case py_int maxd p of
        None \<Rightarrow> Inl ValueError
      | Some b \<Rightarrow>
          (case truediv acc b of
             Inl e \<Rightarrow> Inl e
           | Inr q \<Rightarrow> reduce_truediv maxd (NFloat q) ps))"

text \<open>The expression under \<^verbatim>\<open>try\<close> in \<^verbatim>\<open>FFStream.__init__\<close>.\<close>

definition framerate_expr :: "nat \<Rightarrow> pydict \<Rightarrow> error + int" where
  "framerate_expr maxd d =
     (case dict_get d ''avg_frame_rate'' (PyStr []) of
        PyStr s \<Rightarrow>
          (case py_split CHR ''/'' s of
             [] \<Rightarrow> Inl TypeError
           | p # ps \<Rightarrow>
               (case py_int maxd p of
                  None \<Rightarrow> Inl ValueError
                | Some a \<Rightarrow>
                    (case reduce_truediv maxd (NInt a) ps of
                       Inl e \<Rightarrow> Inl e
                     | Inr x \<Rightarrow> py_round x)))
      | _ \<Rightarrow> Inl AttributeError)"

text \<open>One round of the loop of \<^verbatim>\<open>FFStream.__init__\<close>: the update of the dictionary,
  which is outside the \<^verbatim>\<open>try\<close>, then the frame rate.\<close>

definition FFStream_line :: "nat \<Rightarrow> pydict \<Rightarrow> string \<Rightarrow> error + pydict" where
  "FFStream_line maxd d line =
     (case stream_field line of
        Inl e \<Rightarrow> Inl e
      | Inr (key, value) \<Rightarrow>
          (let d1 = AList.update key (PyStr value) d
           in case framerate_expr maxd d1 of
                Inr n \<Rightarrow> Inr (AList.update ''framerate'' (PyInt n) d1)
              | Inl e \<Rightarrow>
                  if e = ValueError \<or> e = ZeroDivisionError
                  then Inr (AList.update ''framerate'' PyNone d1)
                  else Inl e))"

definition FFStream_init :: "nat \<Rightarrow> string list \<Rightarrow> error + pydict" where
  "FFStream_init maxd data_lines = for_each (FFStream_line maxd) data_lines []"

text \<open>
  A method call \<^verbatim>\<open>obj.name()\<close> first looks \<^verbatim>\<open>name\<close> up on the object, and the instance
  dictionary comes before the functions of the class. \<^verbatim>\<open>__init__\<close> stores every field
  of a body line in the instance dictionary, so a field with the name of a method
  takes the method's place on that object: the lookup gives the stored value, and
  calling a string, an int or \<^verbatim>\<open>None\<close> raises \<^verbatim>\<open>TypeError\<close>. \<open>call_method d name r\<close> is
  the call of the method \<open>name\<close> on the object with dictionary \<open>d\<close>, where \<open>r\<close> is what
  the body of the method gives. (\<^verbatim>\<open>self.__dict__\<close> itself is found on the class first and
  cannot be replaced in this way.)
\<close>

definition call_method :: "pydict \<Rightarrow> string \<Rightarrow> error + 'a \<Rightarrow> error + 'a" where
  "call_method d name r = (if map_of d name \<noteq> None then Inl TypeError else r)"

text \<open>The bodies of the four predicates, and their calls.\<close>

definition is_audio_body :: "pydict \<Rightarrow> bool" where
  "is_audio_body d = (dict_get d ''codec_type'' PyNone = PyStr ''audio'')"

definition is_video_body :: "pydict \<Rightarrow> bool" where
  "is_video_body d = (dict_get d ''codec_type'' PyNone = PyStr ''video'')"

definition is_subtitle_body :: "pydict \<Rightarrow> bool" where
  "is_subtitle_body d = (dict_get d ''codec_type'' PyNone = PyStr ''subtitle'')"

definition is_attachment_body :: "pydict \<Rightarrow> bool" where
  "is_attachment_body d = (dict_get d ''codec_type'' PyNone = PyStr ''attachment'')"

definition is_audio :: "pydict \<Rightarrow> error + bool" where
  "is_audio d = call_method d ''is_audio'' (Inr (is_audio_body d))"

definition is_video :: "pydict \<Rightarrow> error + bool" where
  "is_video d = call_method d ''is_video'' (Inr (is_video_body d))"

definition is_subtitle :: "pydict \<Rightarrow> error + bool" where
  "is_subtitle d = call_method d ''is_subtitle'' (Inr (is_subtitle_body d))"

definition is_attachment :: "pydict \<Rightarrow> error + bool" where
  "is_attachment d = call_method d ''is_attachment'' (Inr (is_attachment_body d))"

text \<open>The accessors catch \<^verbatim>\<open>ValueError\<close> only and raise \<^verbatim>\<open>FFProbeError\<close> for it.\<close>

definition value_error_to_ffprobe_error :: "error + 'a \<Rightarrow> error + 'a" where
  "value_error_to_ffprobe_error r =
     (case r of Inl e \<Rightarrow> Inl (if e = ValueError then FFProbeError else e) | Inr x \<Rightarrow> Inr x)"

text \<open>
  The condition \<^verbatim>\<open>self.is_video() or self.is_audio()\<close>, which stands before the \<^verbatim>\<open>try\<close> of
  \<^verbatim>\<open>frames\<close> and \<^verbatim>\<open>duration_seconds\<close>: \<^verbatim>\<open>is_audio\<close> is called when \<^verbatim>\<open>is_video()\<close> has returned
  \<^verbatim>\<open>False\<close> only.
\<close>

definition video_or_audio :: "pydict \<Rightarrow> error + bool" where
  "video_or_audio d =
     (case is_video d of
        Inl e \<Rightarrow> Inl e
      | Inr v \<Rightarrow> if v then Inr True else is_audio d)"

definition frames_body :: "nat \<Rightarrow> pydict \<Rightarrow> error + int" where
  "frames_body maxd d =
     (case video_or_audio d of
        Inl e \<Rightarrow> Inl e
      | Inr va \<Rightarrow>
          if va
          then value_error_to_ffprobe_error
                 (int_of_val maxd (dict_get d ''nb_frames'' (PyStr [])))
          else Inr 0)"

definition frames :: "nat \<Rightarrow> pydict \<Rightarrow> error + int" where
  "frames maxd d = call_method d ''frames'' (frames_body maxd d)"

definition duration_seconds_body :: "pydict \<Rightarrow> error + pyfloat" where
  "duration_seconds_body d =
     (case video_or_audio d of
        Inl e \<Rightarrow> Inl e
      | Inr va \<Rightarrow>
          if va
          then value_error_to_ffprobe_error (float_of_val (dict_get d ''duration'' (PyStr [])))
          else Inr (Finite False 0))"

definition duration_seconds :: "pydict \<Rightarrow> error + pyfloat" where
  "duration_seconds d = call_method d ''duration_seconds'' (duration_seconds_body d)"

definition bit_rate_body :: "nat \<Rightarrow> pydict \<Rightarrow> error + int" where
  "bit_rate_body maxd d =
     value_error_to_ffprobe_error (int_of_val maxd (dict_get d ''bit_rate'' (PyStr [])))"

definition bit_rate :: "nat \<Rightarrow> pydict \<Rightarrow> error + int" where
  "bit_rate maxd d = call_method d ''bit_rate'' (bit_rate_body maxd d)"

section \<open>FFContainer\<close>

text \<open>The target list \<^verbatim>\<open>key, value\<close> wants two pieces exactly.\<close>

definition container_field :: "string \<Rightarrow> error + (string \<times> string)" where
  "container_field line =
     (case py_split CHR ''='' (strip line) of
        [key, value] \<Rightarrow> Inr (key, value)
      | _ \<Rightarrow> Inl ValueError)"

definition FFContainer_line :: "pydict \<Rightarrow> string \<Rightarrow> error + pydict" where
  "FFContainer_line d line =
     (case container_field line of
        Inl e \<Rightarrow> Inl e
      | Inr (key, value) \<Rightarrow> Inr (AList.update key (PyStr value) d))"

definition FFContainer_init :: "string list \<Rightarrow> error + pydict" where
  "FFContainer_init data_lines = for_each FFContainer_line data_lines []"

text \<open>The body of \<^verbatim>\<open>container_bitrate\<close>, and its call on a container record.\<close>

definition container_bitrate_body :: "nat \<Rightarrow> pydict \<Rightarrow> error + int" where
  "container_bitrate_body maxd d =
     value_error_to_ffprobe_error
       (int_of_val maxd (dict_get d ''container_bitrate'' (PyStr [])))"

definition container_bitrate :: "nat \<Rightarrow> pydict \<Rightarrow> error + int" where
  "container_bitrate maxd d =
     call_method d ''container_bitrate'' (container_bitrate_body maxd d)"

section \<open>FFProbe\<close>

text \<open>
  The attributes of an \<^verbatim>\<open>FFProbe\<close> object that \<^verbatim>\<open>__init__\<close> fills. The two calls of
  \<^verbatim>\<open>probe\<close> run the external tool; \<open>FFProbe_init\<close> takes what they return: the lines of
  the two channels of the first call, and the lines of the diagnostic channel of the
  second, which is the only channel of the second call that is read.
\<close>

record FFProbe =
  streams :: "pydict list"
  video :: "pydict list"
  audio :: "pydict list"
  subtitle :: "pydict list"
  attachment :: "pydict list"
  container :: "pydict list"

text \<open>
  The body shared by the two loops over \<^verbatim>\<open>stdout\<close> and \<^verbatim>\<open>stderr\<close>. Its state is the two
  local variables \<^verbatim>\<open>stream\<close> and \<^verbatim>\<open>data_lines\<close> and the list \<^verbatim>\<open>self.streams\<close>.
  \<^verbatim>\<open>data_lines\<close> is unbound until the first opening marker and is not read before:
  the empty list stands for it.
\<close>

type_synonym scan = "bool \<times> string list \<times> pydict list"

definition scan_line :: "nat \<Rightarrow> scan \<Rightarrow> string \<Rightarrow> error + scan" where
  "scan_line maxd st line =
     (case st of (stream, data_lines, strs) \<Rightarrow>
        if substring_in ''[STREAM]'' line then Inr (True, [], strs)
        else if substring_in ''[/STREAM]'' line \<and> stream then
          (case FFStream_init maxd data_lines of
             Inl e \<Rightarrow> Inl e
           | Inr s \<Rightarrow> Inr (False, data_lines, strs @ [s]))
        else if stream then Inr (True, data_lines @ [line], strs)
        else Inr (stream, data_lines, strs))"

text \<open>
  The body of the loop over \<^verbatim>\<open>self.streams\<close>: the four predicates are called on the
  record in this order until one returns \<^verbatim>\<open>True\<close>, and a call can raise.
\<close>

definition classify :: "FFProbe \<Rightarrow> pydict \<Rightarrow> error + FFProbe" where
  "classify self s =
     (case is_audio s of
        Inl e \<Rightarrow> Inl e
      | Inr a \<Rightarrow>
          if a then Inr (self\<lparr>audio := audio self @ [s]\<rparr>)
          else (case is_video s of
             Inl e \<Rightarrow> Inl e
           | Inr v \<Rightarrow>
               if v then Inr (self\<lparr>video := video self @ [s]\<rparr>)
               else (case is_subtitle s of
                  Inl e \<Rightarrow> Inl e
                | Inr t \<Rightarrow>
                    if t then Inr (self\<lparr>subtitle := subtitle self @ [s]\<rparr>)
                    else (case is_attachment s of
                       Inl e \<Rightarrow> Inl e
                     | Inr m \<Rightarrow>
                         if m then Inr (self\<lparr>attachment := attachment self @ [s]\<rparr>)
                         else Inr self))))"

text \<open>The body of the loop over \<^verbatim>\<open>mkverr\<close>. \<^verbatim>\<open>search\<close> returns \<^verbatim>\<open>None\<close> where the
  pattern is not found, and \<^verbatim>\<open>None.group()\<close> is an \<^verbatim>\<open>AttributeError\<close>.\<close>

definition container_line :: "FFProbe \<Rightarrow> string \<Rightarrow> error + FFProbe" where
  "container_line self line =
     (if re_search stream_re line \<noteq> None then
        (case re_search bit_re line of
           None \<Rightarrow> Inl AttributeError
         | Some m \<Rightarrow>
             (let bit_match = re_group line m;
                  bit_match = filter is_digit bit_match
              in case FFContainer_init [''container_bitrate='' @ bit_match] of
                   Inl e \<Rightarrow> Inl e
                 | Inr c \<Rightarrow> Inr (self\<lparr>container := container self @ [c]\<rparr>)))
      else Inr self)"

definition FFProbe_init ::
  "nat \<Rightarrow> string list \<Rightarrow> string list \<Rightarrow> string list \<Rightarrow> error + FFProbe" where
  "FFProbe_init maxd stdout stderr mkverr =
     (case for_each (scan_line maxd) stdout (False, [], []) of
        Inl e \<Rightarrow> Inl e
      | Inr st1 \<Rightarrow>
          (case for_each (scan_line maxd) stderr st1 of
             Inl e \<Rightarrow> Inl e
           | Inr (stream, data_lines, strs) \<Rightarrow>
               (let self = \<lparr>streams = strs, video = [], audio = [], subtitle = [],
                             attachment = [], container = []\<rparr>
                in case for_each classify (streams self) self of
                     Inl e \<Rightarrow> Inl e
                   | Inr self \<Rightarrow> for_each container_line mkverr self)))"

section \<open>Notions used in the statements\<close>

text \<open>The number of the four partition lists that hold a record.\<close>

definition partitions_holding :: "FFProbe \<Rightarrow> pydict \<Rightarrow> nat" where
  "partitions_holding r s =
     length (filter (\<lambda>p. s \<in> set p) [video r, audio r, subtitle r, attachment r])"

text \<open>A record whose \<^verbatim>\<open>codec_type\<close> is one of the four literals.\<close>

definition recognized :: "pydict \<Rightarrow> bool" where
  "recognized s =
     (dict_get s ''codec_type'' PyNone \<in>
        {PyStr ''video'', PyStr ''audio'', PyStr ''subtitle'', PyStr ''attachment''})"

text \<open>
  The state of the block parser after a sequence of lines, started in state \<open>s\<close>:
  \<open>True\<close> is inside a block. It is the value of the variable \<^verbatim>\<open>stream\<close>, which a line
  with the opening marker sets and a line with the closing marker alone clears.
\<close>

definition inside_block :: "bool \<Rightarrow> string list \<Rightarrow> bool" where
  "inside_block s ls =
     foldl (\<lambda>st line.
        if substring_in ''[STREAM]'' line then True
        else if substring_in ''[/STREAM]'' line then False
        else st) s ls"

text \<open>
  The digits that the loop over \<^verbatim>\<open>mkverr\<close> takes from a line: the match of \<open>bit_re\<close> with
  everything but its digits removed (the empty string stands for no match, where the
  loop raises).
\<close>

definition bit_digits :: "string \<Rightarrow> string" where
  "bit_digits line =
     (case re_search bit_re line of
        None \<Rightarrow> []
      | Some m \<Rightarrow> filter is_digit (re_group line m))"

text \<open>
  The raw field mapping of a record is its dictionary without the derived entry
  \<^verbatim>\<open>framerate\<close>. Writing it back, one \<^verbatim>\<open>name=value\<close> line for each entry in the order of
  the dictionary, is the re-serialization of the round-trip property of the
  specification; the module itself has no such function.
\<close>

definition raw_fields :: "pydict \<Rightarrow> pydict" where
  "raw_fields d = filter (\<lambda>kv. fst kv \<noteq> ''framerate'') d"

definition field_line :: "string \<Rightarrow> string \<Rightarrow> string" where
  "field_line k v = k @ ''='' @ v"

definition reserialize :: "pydict \<Rightarrow> string list" where
  "reserialize d =
     map (\<lambda>kv. field_line (fst kv) (case snd kv of PyStr s \<Rightarrow> s | _ \<Rightarrow> [])) (raw_fields d)"

text \<open>
  A list of fields that decoding can give back: the names differ from each other and
  from \<^verbatim>\<open>framerate\<close>, neither a name nor a value holds \<^verbatim>\<open>=\<close>, and no line has
  whitespace at either end.
\<close>

definition plain_fields :: "(string \<times> string) list \<Rightarrow> bool" where
  "plain_fields kvs =
     (distinct (map fst kvs) \<and>
      list_all (\<lambda>kv. fst kv \<noteq> ''framerate'' \<and> CHR ''='' \<notin> set (fst kv) \<and>
         CHR ''='' \<notin> set (snd kv) \<and>
         strip (field_line (fst kv) (snd kv)) = field_line (fst kv) (snd kv)) kvs)"

section \<open>Loops and the partition\<close>

lemma for_each_append:
  "for_each body (xs @ ys) s =
     (case for_each body xs s of Inl e \<Rightarrow> Inl e | Inr s' \<Rightarrow> for_each body ys s')"
  by (induction xs arbitrary: s) (auto split: sum.splits)

lemma kinds_exclusive:
  "is_audio_body s \<Longrightarrow> \<not> is_video_body s \<and> \<not> is_subtitle_body s \<and> \<not> is_attachment_body s"
  "is_video_body s \<Longrightarrow> \<not> is_subtitle_body s \<and> \<not> is_attachment_body s"
  "is_subtitle_body s \<Longrightarrow> \<not> is_attachment_body s"
  by (auto simp: is_audio_body_def is_video_body_def is_subtitle_body_def
      is_attachment_body_def)

text \<open>A call of a predicate raises \<^verbatim>\<open>TypeError\<close> or returns what the body gives.\<close>

lemma predicate_calls:
  "is_audio s = Inr b \<Longrightarrow> b = is_audio_body s"
  "is_video s = Inr b \<Longrightarrow> b = is_video_body s"
  "is_subtitle s = Inr b \<Longrightarrow> b = is_subtitle_body s"
  "is_attachment s = Inr b \<Longrightarrow> b = is_attachment_body s"
  by (auto simp: is_audio_def is_video_def is_subtitle_def is_attachment_def call_method_def
      split: if_splits)

lemma classify_fields:
  assumes "classify self s = Inr self'"
  shows "streams self' = streams self \<and> container self' = container self \<and>
    audio self' = audio self @ filter is_audio_body [s] \<and>
    video self' = video self @ filter is_video_body [s] \<and>
    subtitle self' = subtitle self @ filter is_subtitle_body [s] \<and>
    attachment self' = attachment self @ filter is_attachment_body [s]"
proof (cases "is_audio s")
  case (Inl e)
  with assms show ?thesis by (simp add: classify_def)
next
  case a: (Inr a)
  note ab = predicate_calls(1) [OF a]
  show ?thesis
  proof (cases a)
    case True
    with assms a ab kinds_exclusive(1) [of s] show ?thesis
      by (auto simp: classify_def)
  next
    case na: False
    show ?thesis
    proof (cases "is_video s")
      case (Inl e)
      with assms a na show ?thesis by (simp add: classify_def)
    next
      case v: (Inr v)
      note vb = predicate_calls(2) [OF v]
      show ?thesis
      proof (cases v)
        case True
        with assms a na ab v vb kinds_exclusive(2) [of s] show ?thesis
          by (auto simp: classify_def)
      next
        case nv: False
        show ?thesis
        proof (cases "is_subtitle s")
          case (Inl e)
          with assms a na v nv show ?thesis by (simp add: classify_def)
        next
          case t: (Inr t)
          note tb = predicate_calls(3) [OF t]
          show ?thesis
          proof (cases t)
            case True
            with assms a na ab v nv vb t tb kinds_exclusive(3) [of s] show ?thesis
              by (auto simp: classify_def)
          next
            case nt: False
            show ?thesis
            proof (cases "is_attachment s")
              case (Inl e)
              with assms a na v nv t nt show ?thesis by (simp add: classify_def)
            next
              case m: (Inr m)
              note mb = predicate_calls(4) [OF m]
              from assms a na ab v nv vb t nt tb m mb show ?thesis
                by (auto simp: classify_def)
            qed
          qed
        qed
      qed
    qed
  qed
qed

lemma classify_loop_fields:
  assumes "for_each classify xs self = Inr self'"
  shows "streams self' = streams self \<and> container self' = container self \<and>
    audio self' = audio self @ filter is_audio_body xs \<and>
    video self' = video self @ filter is_video_body xs \<and>
    subtitle self' = subtitle self @ filter is_subtitle_body xs \<and>
    attachment self' = attachment self @ filter is_attachment_body xs"
  using assms
proof (induction xs arbitrary: self)
  case Nil
  then show ?case by simp
next
  case (Cons x xs)
  then obtain s1 where s1: "classify self x = Inr s1"
    and rest: "for_each classify xs s1 = Inr self'"
    by (auto split: sum.splits)
  from Cons.IH [OF rest] classify_fields [OF s1] show ?case by simp
qed

text \<open>Whether the classification of a record raises depends on the record only.\<close>

lemma classify_isl: "isl (classify self s) = isl (classify self2 s)"
  by (simp add: classify_def split: sum.splits)

lemma classify_loop_isl:
  "isl (for_each classify xs self) = (\<exists>s \<in> set xs. isl (classify self2 s))"
proof (induction xs arbitrary: self)
  case Nil
  then show ?case by simp
next
  case (Cons x xs)
  show ?case
  proof (cases "classify self x")
    case (Inl e)
    then have "isl (classify self2 x)" using classify_isl [of self x self2] by simp
    with Inl show ?thesis by simp
  next
    case (Inr s1)
    then have "\<not> isl (classify self2 x)" using classify_isl [of self x self2] by simp
    with Inr Cons.IH [of s1] show ?thesis by simp
  qed
qed

lemma classify_loop_returns:
  assumes "for_each classify (xs @ ys) self = Inr r"
  shows "(\<exists>r1. for_each classify xs self1 = Inr r1) \<and> (\<exists>r2. for_each classify ys self2 = Inr r2)"
proof -
  from assms have "\<not> isl (for_each classify (xs @ ys) self)" by simp
  then have "\<not> isl (for_each classify xs self1)" "\<not> isl (for_each classify ys self2)"
    unfolding classify_loop_isl [where ?self2.0 = self] by auto
  then show ?thesis
    by (cases "for_each classify xs self1"; cases "for_each classify ys self2") auto
qed

lemma container_line_fields:
  assumes "container_line self l = Inr self'"
  shows "streams self' = streams self" "audio self' = audio self" "video self' = video self"
    "subtitle self' = subtitle self" "attachment self' = attachment self"
  using assms
  by (auto simp: container_line_def Let_def split: if_splits option.splits sum.splits)

lemma container_loop_fields:
  assumes "for_each container_line ls self = Inr self'"
  shows "streams self' = streams self \<and> audio self' = audio self \<and>
    video self' = video self \<and> subtitle self' = subtitle self \<and>
    attachment self' = attachment self"
  using assms
proof (induction ls arbitrary: self)
  case Nil
  then show ?case by simp
next
  case (Cons l ls)
  then obtain s1 where s1: "container_line self l = Inr s1"
    and rest: "for_each container_line ls s1 = Inr self'"
    by (auto split: sum.splits)
  from Cons.IH [OF rest] container_line_fields [OF s1] show ?case by simp
qed

lemma FFProbe_init_partitions:
  assumes "FFProbe_init maxd out err mk = Inr r"
  shows "audio r = filter is_audio_body (streams r) \<and>
     video r = filter is_video_body (streams r) \<and>
     subtitle r = filter is_subtitle_body (streams r) \<and>
     attachment r = filter is_attachment_body (streams r)"
proof -
  from assms obtain strs self1 where
    cl: "for_each classify strs \<lparr>streams = strs, video = [], audio = [], subtitle = [],
       attachment = [], container = []\<rparr> = Inr self1"
    and loop: "for_each container_line mk self1 = Inr r"
    by (auto simp: FFProbe_init_def Let_def split: sum.splits prod.splits)
  from container_loop_fields [OF loop] classify_loop_fields [OF cl] show ?thesis
    by simp
qed

text \<open>
  C9. Every record of an analysis that returns is in the full list \<open>streams\<close>, and each
  partition list is the full list filtered by the test of its predicate, in the same
  order. So a record of the full list is held by exactly one of the four partition
  lists when its raw \<^verbatim>\<open>codec_type\<close> is one of the four literals, and by none of them
  when the field is absent or has another value. (The loop calls the predicates on
  the record; when a call raises, the analysis returns no object and there is no
  record to speak of.)
\<close>

theorem partition_by_codec_type:
  assumes "FFProbe_init maxd out err mk = Inr r"
  shows "video r = filter is_video_body (streams r) \<and>
     audio r = filter is_audio_body (streams r) \<and>
     subtitle r = filter is_subtitle_body (streams r) \<and>
     attachment r = filter is_attachment_body (streams r) \<and>
     (\<forall>s \<in> set (streams r). partitions_holding r s = (if recognized s then 1 else 0))"
proof -
  note p = FFProbe_init_partitions [OF assms]
  have "partitions_holding r s = (if recognized s then 1 else 0)"
    if "s \<in> set (streams r)" for s
    using that p kinds_exclusive [of s]
    by (auto simp: partitions_holding_def recognized_def is_audio_body_def is_video_body_def
        is_subtitle_body_def is_attachment_body_def)
  with p show ?thesis by blast
qed

lemma partition_example:
  "FFProbe_init 0
     [''[STREAM]'', ''codec_type=video'', ''[/STREAM]'',
      ''[STREAM]'', ''codec_type=data'', ''[/STREAM]'',
      ''[STREAM]'', ''index=2'', ''[/STREAM]'']
     [''[STREAM]'', ''codec_type=audio'', ''[/STREAM]''] [] =
   Inr \<lparr>streams =
        [[(''codec_type'', PyStr ''video''), (''framerate'', PyNone)],
         [(''codec_type'', PyStr ''data''), (''framerate'', PyNone)],
         [(''index'', PyStr ''2''), (''framerate'', PyNone)],
         [(''codec_type'', PyStr ''audio''), (''framerate'', PyNone)]],
        video = [[(''codec_type'', PyStr ''video''), (''framerate'', PyNone)]],
        audio = [[(''codec_type'', PyStr ''audio''), (''framerate'', PyNone)]],
        subtitle = [], attachment = [], container = []\<rparr>"
  by code_simp

theorem partition_by_codec_type_witness:
  "partitions_holding
     \<lparr>streams =
        [[(''codec_type'', PyStr ''video''), (''framerate'', PyNone)],
         [(''codec_type'', PyStr ''data''), (''framerate'', PyNone)],
         [(''index'', PyStr ''2''), (''framerate'', PyNone)],
         [(''codec_type'', PyStr ''audio''), (''framerate'', PyNone)]],
        video = [[(''codec_type'', PyStr ''video''), (''framerate'', PyNone)]],
        audio = [[(''codec_type'', PyStr ''audio''), (''framerate'', PyNone)]],
        subtitle = [], attachment = [], container = []\<rparr>
     [(''codec_type'', PyStr ''video''), (''framerate'', PyNone)] = 1 \<and>
   partitions_holding
     \<lparr>streams =
        [[(''codec_type'', PyStr ''video''), (''framerate'', PyNone)],
         [(''codec_type'', PyStr ''data''), (''framerate'', PyNone)],
         [(''index'', PyStr ''2''), (''framerate'', PyNone)],
         [(''codec_type'', PyStr ''audio''), (''framerate'', PyNone)]],
        video = [[(''codec_type'', PyStr ''video''), (''framerate'', PyNone)]],
        audio = [[(''codec_type'', PyStr ''audio''), (''framerate'', PyNone)]],
        subtitle = [], attachment = [], container = []\<rparr>
     [(''codec_type'', PyStr ''data''), (''framerate'', PyNone)] = 0 \<and>
   partitions_holding
     \<lparr>streams =
        [[(''codec_type'', PyStr ''video''), (''framerate'', PyNone)],
         [(''codec_type'', PyStr ''data''), (''framerate'', PyNone)],
         [(''index'', PyStr ''2''), (''framerate'', PyNone)],
         [(''codec_type'', PyStr ''audio''), (''framerate'', PyNone)]],
        video = [[(''codec_type'', PyStr ''video''), (''framerate'', PyNone)]],
        audio = [[(''codec_type'', PyStr ''audio''), (''framerate'', PyNone)]],
        subtitle = [], attachment = [], container = []\<rparr>
     [(''index'', PyStr ''2''), (''framerate'', PyNone)] = 0"
  (is "partitions_holding ?R ?v = 1 \<and> partitions_holding ?R ?d = 0 \<and> partitions_holding ?R ?i = 0")
proof -
  note all = partition_by_codec_type [OF partition_example, THEN conjunct2, THEN conjunct2,
      THEN conjunct2, THEN conjunct2]
  have v: "?v \<in> set (streams ?R)" and d: "?d \<in> set (streams ?R)" and i: "?i \<in> set (streams ?R)"
    by simp_all
  have rv: "recognized ?v" and rd: "\<not> recognized ?d" and ri: "\<not> recognized ?i"
    by (simp_all add: recognized_def dict_get_def)
  from bspec [OF all v] bspec [OF all d] bspec [OF all i] rv rd ri show ?thesis
    by simp
qed

text \<open>A record with a field of the name of a predicate that the loop calls on it.\<close>

lemma partition_lookup_example:
  "FFProbe_init 0 [''[STREAM]'', ''codec_type=video'', ''is_audio=1'', ''[/STREAM]''] [] [] =
     Inl TypeError"
  "FFProbe_init 0 [''[STREAM]'', ''codec_type=audio'', ''is_video=1'', ''[/STREAM]''] [] [] =
     Inr \<lparr>streams = [[(''codec_type'', PyStr ''audio''), (''framerate'', PyNone),
                      (''is_video'', PyStr ''1'')]],
          video = [],
          audio = [[(''codec_type'', PyStr ''audio''), (''framerate'', PyNone),
                    (''is_video'', PyStr ''1'')]],
          subtitle = [], attachment = [], container = []\<rparr>"
  by code_simp+

section \<open>The typed accessors\<close>

lemma digit_not_space: "is_digit c \<Longrightarrow> \<not> num_isspace c"
  by (auto simp: is_digit_def num_isspace_def)

lemma digit_not_sign: "is_digit c \<Longrightarrow> c \<noteq> CHR ''-'' \<and> c \<noteq> CHR ''+'' \<and> c \<noteq> CHR ''_''"
  by (auto simp: is_digit_def)

lemma num_strip_id:
  assumes "s \<noteq> []" "\<not> num_isspace (hd s)" "\<not> num_isspace (last s)"
  shows "num_strip s = s"
proof -
  have a: "dropWhile num_isspace s = s"
    using assms by (cases s) auto
  have "dropWhile num_isspace (rev s) = rev s"
    using assms by (cases "rev s") (auto simp: last_rev [symmetric] hd_rev)
  then show ?thesis by (simp add: num_strip_def a)
qed

lemma no_double_underscore_digits: "list_all is_digit s \<Longrightarrow> no_double_underscore s"
  by (induction s rule: no_double_underscore.induct) (auto dest: digit_not_sign)

lemma py_int_digits:
  assumes "s \<noteq> []" "list_all is_digit s" "maxd = 0 \<or> length s \<le> maxd \<or> length s \<le> 640"
  shows "py_int maxd s = Some (decimal_value s)"
proof -
  have hd: "is_digit (hd s)" and last: "is_digit (last s)"
    using assms(1,2) by (auto simp: list_all_iff)
  have strip: "num_strip s = s"
    using num_strip_id [OF assms(1)] hd last digit_not_space by blast
  have filt: "filter is_digit s = s"
    using assms(2) by (simp add: list_all_iff)
  have part: "digit_part s"
    using assms(1,2) hd last no_double_underscore_digits [OF assms(2)]
    by (auto simp: digit_part_def list_all_iff)
  show ?thesis
    using assms(1,3) hd digit_not_sign [OF hd] part
    by (auto simp: py_int_def strip filt Let_def)
qed

lemma decimal_value_snoc:
  "is_digit c \<Longrightarrow> decimal_value (s @ [c]) = 10 * decimal_value s + digit_val c"
  by (simp add: decimal_value_def)

lemma py_int_empty: "py_int maxd [] = None"
  by (simp add: py_int_def num_strip_def digit_part_def)

lemma py_int_na: "py_int maxd ''n/a'' = None"
  by (simp add: py_int_def num_strip_def num_isspace_def digit_part_def is_digit_def)

text \<open>
  C7. The body of \<^verbatim>\<open>bit_rate\<close> returns the integer that the raw \<^verbatim>\<open>bit_rate\<close> field denotes
  when \<^verbatim>\<open>int\<close> accepts the field, and raises \<^verbatim>\<open>FFProbeError\<close> when the field is absent or
  refused, with no default. But the body runs for a record without the field only:
  \<^verbatim>\<open>__init__\<close> has stored the field in the instance dictionary under the name of the
  method, so on a record that has the field the call \<^verbatim>\<open>bit_rate()\<close> finds the stored
  string and raises \<^verbatim>\<open>TypeError\<close>, for \<^verbatim>\<open>128000\<close> as for \<^verbatim>\<open>n/a\<close>. The call raises
  \<^verbatim>\<open>FFProbeError\<close> when the field is absent, and it never returns an integer.
\<close>

theorem bit_rate_contract:
  "(map_of d ''bit_rate'' = None \<longrightarrow> bit_rate maxd d = Inl FFProbeError) \<and>
   (map_of d ''bit_rate'' \<noteq> None \<longrightarrow> bit_rate maxd d = Inl TypeError) \<and>
   (\<forall>n. bit_rate maxd d \<noteq> Inr n) \<and>
   (map_of d ''bit_rate'' = None \<longrightarrow> bit_rate_body maxd d = Inl FFProbeError) \<and>
   (map_of d ''bit_rate'' = Some (PyStr s) \<and> py_int maxd s = None \<longrightarrow>
      bit_rate_body maxd d = Inl FFProbeError) \<and>
   (map_of d ''bit_rate'' = Some (PyStr s) \<and> py_int maxd s = Some n \<longrightarrow>
      bit_rate_body maxd d = Inr n) \<and>
   (map_of d ''bit_rate'' = Some (PyStr s) \<and> s \<noteq> [] \<and> list_all is_digit s \<and>
      (maxd = 0 \<or> length s \<le> maxd) \<longrightarrow> bit_rate_body maxd d = Inr (decimal_value s))"
proof -
  have absent: "bit_rate_body maxd d = Inl FFProbeError" if "map_of d ''bit_rate'' = None"
    using that
    by (simp add: bit_rate_body_def dict_get_def int_of_val_def py_int_empty
        value_error_to_ffprobe_error_def)
  have bad: "bit_rate_body maxd d = Inl FFProbeError"
    if "map_of d ''bit_rate'' = Some (PyStr t)" "py_int maxd t = None" for t
    using that
    by (simp add: bit_rate_body_def dict_get_def int_of_val_def
        value_error_to_ffprobe_error_def)
  have good: "bit_rate_body maxd d = Inr k"
    if "map_of d ''bit_rate'' = Some (PyStr t)" "py_int maxd t = Some k" for t k
    using that
    by (simp add: bit_rate_body_def dict_get_def int_of_val_def
        value_error_to_ffprobe_error_def)
  have call_absent: "bit_rate maxd d = Inl FFProbeError" if "map_of d ''bit_rate'' = None"
    using that absent by (simp add: bit_rate_def call_method_def)
  have call_present: "bit_rate maxd d = Inl TypeError" if "map_of d ''bit_rate'' \<noteq> None"
    using that by (simp add: bit_rate_def call_method_def)
  have never: "bit_rate maxd d \<noteq> Inr k" for k
    using call_absent call_present by (cases "map_of d ''bit_rate''") auto
  show ?thesis
    using absent bad good call_absent call_present never py_int_digits by blast
qed

lemma bit_rate_example_record:
  "FFStream_init 0 [''index=0'', ''bit_rate=128000''] =
     Inr [(''index'', PyStr ''0''), (''framerate'', PyNone), (''bit_rate'', PyStr ''128000'')]"
  "FFStream_init 0 [''index=0'', ''bit_rate=n/a''] =
     Inr [(''index'', PyStr ''0''), (''framerate'', PyNone), (''bit_rate'', PyStr ''n/a'')]"
  "FFStream_init 0 [''index=0''] = Inr [(''index'', PyStr ''0''), (''framerate'', PyNone)]"
  by code_simp+

theorem bit_rate_contract_witness:
  "bit_rate 0 [(''index'', PyStr ''0''), (''framerate'', PyNone)] = Inl FFProbeError \<and>
   bit_rate 0 [(''index'', PyStr ''0''), (''framerate'', PyNone), (''bit_rate'', PyStr ''n/a'')]
     = Inl TypeError \<and>
   bit_rate 0 [(''index'', PyStr ''0''), (''framerate'', PyNone), (''bit_rate'', PyStr ''128000'')]
     = Inl TypeError \<and>
   bit_rate_body 0
     [(''index'', PyStr ''0''), (''framerate'', PyNone), (''bit_rate'', PyStr ''128000'')]
     = Inr 128000"
proof -
  have a: "map_of [(''index'', PyStr ''0''), (''framerate'', PyNone)] ''bit_rate'' = None"
    by simp
  have b: "map_of [(''index'', PyStr ''0''), (''framerate'', PyNone), (''bit_rate'', PyStr ''n/a'')]
      ''bit_rate'' \<noteq> None"
    by simp
  have c: "map_of [(''index'', PyStr ''0''), (''framerate'', PyNone),
      (''bit_rate'', PyStr ''128000'')] ''bit_rate'' = Some (PyStr ''128000'')"
    by simp
  have d: "''128000'' \<noteq> [] \<and> list_all is_digit ''128000'' \<and> decimal_value ''128000'' = 128000"
    by (simp add: is_digit_def decimal_value_def digit_val_def)
  note t1 = bit_rate_contract [of "[(''index'', PyStr ''0''), (''framerate'', PyNone)]" 0,
      THEN conjunct1, THEN mp, OF a]
  note t2 = bit_rate_contract [of "[(''index'', PyStr ''0''), (''framerate'', PyNone),
        (''bit_rate'', PyStr ''n/a'')]" 0, THEN conjunct2, THEN conjunct1, THEN mp, OF b]
  note t3 = bit_rate_contract [of "[(''index'', PyStr ''0''), (''framerate'', PyNone),
        (''bit_rate'', PyStr ''128000'')]" 0 "''128000''"]
  from t3 c have t3a: "bit_rate 0 [(''index'', PyStr ''0''), (''framerate'', PyNone),
        (''bit_rate'', PyStr ''128000'')] = Inl TypeError"
    by simp
  from t3 c d have t3b: "bit_rate_body 0 [(''index'', PyStr ''0''), (''framerate'', PyNone),
        (''bit_rate'', PyStr ''128000'')] = Inr 128000"
    by simp
  from t1 t2 t3a t3b show ?thesis by simp
qed

lemma py_float_empty: "py_float [] = None"
  by (simp add: py_float_def num_strip_def decimal_literal_def)

lemma video_or_audio_cases:
  "map_of d ''is_video'' \<noteq> None \<Longrightarrow> video_or_audio d = Inl TypeError"
  "map_of d ''is_video'' = None \<Longrightarrow> is_video_body d \<Longrightarrow> video_or_audio d = Inr True"
  "map_of d ''is_video'' = None \<Longrightarrow> \<not> is_video_body d \<Longrightarrow> map_of d ''is_audio'' \<noteq> None \<Longrightarrow>
     video_or_audio d = Inl TypeError"
  "map_of d ''is_video'' = None \<Longrightarrow> \<not> is_video_body d \<Longrightarrow> map_of d ''is_audio'' = None \<Longrightarrow>
     video_or_audio d = Inr (is_audio_body d)"
  by (simp_all add: video_or_audio_def is_video_def is_audio_def call_method_def)

text \<open>
  C10. \<^verbatim>\<open>frames()\<close> and \<^verbatim>\<open>duration_seconds()\<close> on a record whose fields have none of the
  names \<^verbatim>\<open>frames\<close>, \<^verbatim>\<open>duration_seconds\<close>, \<^verbatim>\<open>is_video\<close>, \<^verbatim>\<open>is_audio\<close>: for a record whose
  \<^verbatim>\<open>codec_type\<close> is \<^verbatim>\<open>video\<close> or \<^verbatim>\<open>audio\<close>, \<^verbatim>\<open>frames()\<close> raises \<^verbatim>\<open>FFProbeError\<close> when the raw
  \<^verbatim>\<open>nb_frames\<close> field is absent and \<^verbatim>\<open>duration_seconds()\<close> raises it when the raw
  \<^verbatim>\<open>duration\<close> field is absent, and the defaults \<^verbatim>\<open>0\<close> and \<^verbatim>\<open>0.0\<close> are what they return for
  a record of another kind. A field with one of the four names takes the place of
  the method of that name on the record, and then the calls raise \<^verbatim>\<open>TypeError\<close>: a
  field \<^verbatim>\<open>frames\<close> for \<^verbatim>\<open>frames()\<close>, a field \<^verbatim>\<open>duration_seconds\<close> for
  \<^verbatim>\<open>duration_seconds()\<close>, a field \<^verbatim>\<open>is_video\<close> for both, and a field \<^verbatim>\<open>is_audio\<close> for both
  when the record is not a video record (for a video record \<^verbatim>\<open>is_audio\<close> is not called).
  In no case does an accessor return for a video or audio record whose field is
  absent.
\<close>

theorem frames_duration_absent_field:
  "(map_of d ''frames'' \<noteq> None \<longrightarrow> frames maxd d = Inl TypeError) \<and>
   (map_of d ''duration_seconds'' \<noteq> None \<longrightarrow> duration_seconds d = Inl TypeError) \<and>
   (map_of d ''is_video'' \<noteq> None \<or> (\<not> is_video_body d \<and> map_of d ''is_audio'' \<noteq> None) \<longrightarrow>
      frames maxd d = Inl TypeError \<and> duration_seconds d = Inl TypeError) \<and>
   (map_of d ''is_video'' = None \<and>
      (is_video_body d \<or> (is_audio_body d \<and> map_of d ''is_audio'' = None)) \<longrightarrow>
      (map_of d ''frames'' = None \<and> map_of d ''nb_frames'' = None \<longrightarrow>
         frames maxd d = Inl FFProbeError) \<and>
      (map_of d ''duration_seconds'' = None \<and> map_of d ''duration'' = None \<longrightarrow>
         duration_seconds d = Inl FFProbeError)) \<and>
   (map_of d ''is_video'' = None \<and> map_of d ''is_audio'' = None \<and>
      \<not> is_video_body d \<and> \<not> is_audio_body d \<longrightarrow>
      (map_of d ''frames'' = None \<longrightarrow> frames maxd d = Inr 0) \<and>
      (map_of d ''duration_seconds'' = None \<longrightarrow> duration_seconds d = Inr (Finite False 0))) \<and>
   ((is_video_body d \<or> is_audio_body d) \<and> frames maxd d = Inr n \<longrightarrow>
      map_of d ''nb_frames'' \<noteq> None) \<and>
   ((is_video_body d \<or> is_audio_body d) \<and> duration_seconds d = Inr x \<longrightarrow>
      map_of d ''duration'' \<noteq> None)"
proof -
  have f1: "frames maxd d = Inl TypeError" if "map_of d ''frames'' \<noteq> None"
    using that by (simp add: frames_def call_method_def)
  have g1: "duration_seconds d = Inl TypeError" if "map_of d ''duration_seconds'' \<noteq> None"
    using that by (simp add: duration_seconds_def call_method_def)
  have raises: "video_or_audio d = Inl TypeError"
    if "map_of d ''is_video'' \<noteq> None \<or> (\<not> is_video_body d \<and> map_of d ''is_audio'' \<noteq> None)"
    using that video_or_audio_cases(1,3) [of d] by (cases "map_of d ''is_video''") auto
  have f2: "frames maxd d = Inl TypeError" if "video_or_audio d = Inl TypeError"
    using that by (simp add: frames_def frames_body_def call_method_def)
  have g2: "duration_seconds d = Inl TypeError" if "video_or_audio d = Inl TypeError"
    using that by (simp add: duration_seconds_def duration_seconds_body_def call_method_def)
  have yes: "video_or_audio d = Inr True"
    if "map_of d ''is_video'' = None"
      "is_video_body d \<or> (is_audio_body d \<and> map_of d ''is_audio'' = None)"
    using that video_or_audio_cases(2,4) [of d] by (cases "is_video_body d") auto
  have f3: "frames maxd d = Inl FFProbeError"
    if "video_or_audio d = Inr True" "map_of d ''frames'' = None" "map_of d ''nb_frames'' = None"
    using that
    by (simp add: frames_def frames_body_def call_method_def dict_get_def int_of_val_def
        py_int_empty value_error_to_ffprobe_error_def)
  have g3: "duration_seconds d = Inl FFProbeError"
    if "video_or_audio d = Inr True" "map_of d ''duration_seconds'' = None"
      "map_of d ''duration'' = None"
    using that
    by (simp add: duration_seconds_def duration_seconds_body_def call_method_def dict_get_def
        float_of_val_def py_float_empty value_error_to_ffprobe_error_def)
  have no: "video_or_audio d = Inr False"
    if "map_of d ''is_video'' = None" "map_of d ''is_audio'' = None"
      "\<not> is_video_body d" "\<not> is_audio_body d"
    using that video_or_audio_cases(4) [of d] by simp
  have f4: "frames maxd d = Inr 0"
    if "video_or_audio d = Inr False" "map_of d ''frames'' = None"
    using that by (simp add: frames_def frames_body_def call_method_def)
  have g4: "duration_seconds d = Inr (Finite False 0)"
    if "video_or_audio d = Inr False" "map_of d ''duration_seconds'' = None"
    using that by (simp add: duration_seconds_def duration_seconds_body_def call_method_def)
  have kind: "video_or_audio d = Inl TypeError \<or> video_or_audio d = Inr True"
    if "is_video_body d \<or> is_audio_body d"
    using that video_or_audio_cases [of d]
    by (cases "map_of d ''is_video''"; cases "map_of d ''is_audio''"; cases "is_video_body d")
      auto
  have f5: "map_of d ''nb_frames'' \<noteq> None"
    if "is_video_body d \<or> is_audio_body d" "frames maxd d = Inr n"
  proof
    assume absent: "map_of d ''nb_frames'' = None"
    from that(2) f1 have nf: "map_of d ''frames'' = None" by (cases "map_of d ''frames''") auto
    from kind [OF that(1)] f2 f3 [OF _ nf absent] that(2) show False by auto
  qed
  have g5: "map_of d ''duration'' \<noteq> None"
    if "is_video_body d \<or> is_audio_body d" "duration_seconds d = Inr x"
  proof
    assume absent: "map_of d ''duration'' = None"
    from that(2) g1 have nf: "map_of d ''duration_seconds'' = None"
      by (cases "map_of d ''duration_seconds''") auto
    from kind [OF that(1)] g2 g3 [OF _ nf absent] that(2) show False by auto
  qed
  have c1: "map_of d ''frames'' \<noteq> None \<longrightarrow> frames maxd d = Inl TypeError"
    using f1 by blast
  have c2: "map_of d ''duration_seconds'' \<noteq> None \<longrightarrow> duration_seconds d = Inl TypeError"
    using g1 by blast
  have c3: "map_of d ''is_video'' \<noteq> None \<or>
      (\<not> is_video_body d \<and> map_of d ''is_audio'' \<noteq> None) \<longrightarrow>
      frames maxd d = Inl TypeError \<and> duration_seconds d = Inl TypeError"
    using raises f2 g2 by blast
  have c4: "map_of d ''is_video'' = None \<and>
      (is_video_body d \<or> (is_audio_body d \<and> map_of d ''is_audio'' = None)) \<longrightarrow>
      (map_of d ''frames'' = None \<and> map_of d ''nb_frames'' = None \<longrightarrow>
         frames maxd d = Inl FFProbeError) \<and>
      (map_of d ''duration_seconds'' = None \<and> map_of d ''duration'' = None \<longrightarrow>
         duration_seconds d = Inl FFProbeError)"
    using yes f3 g3 by blast
  have c5: "map_of d ''is_video'' = None \<and> map_of d ''is_audio'' = None \<and>
      \<not> is_video_body d \<and> \<not> is_audio_body d \<longrightarrow>
      (map_of d ''frames'' = None \<longrightarrow> frames maxd d = Inr 0) \<and>
      (map_of d ''duration_seconds'' = None \<longrightarrow> duration_seconds d = Inr (Finite False 0))"
    using no f4 g4 by blast
  have c6: "(is_video_body d \<or> is_audio_body d) \<and> frames maxd d = Inr n \<longrightarrow>
      map_of d ''nb_frames'' \<noteq> None"
    using f5 by blast
  have c7: "(is_video_body d \<or> is_audio_body d) \<and> duration_seconds d = Inr x \<longrightarrow>
      map_of d ''duration'' \<noteq> None"
    using g5 by blast
  from c1 c2 c3 c4 c5 c6 c7 show ?thesis by (intro conjI)
qed

lemma frames_example_records:
  "FFStream_init 0 [''index=0'', ''codec_type=video''] =
     Inr [(''index'', PyStr ''0''), (''framerate'', PyNone), (''codec_type'', PyStr ''video'')]"
  "FFStream_init 0 [''index=1'', ''codec_type=audio''] =
     Inr [(''index'', PyStr ''1''), (''framerate'', PyNone), (''codec_type'', PyStr ''audio'')]"
  "FFStream_init 0 [''index=2'', ''codec_type=subtitle''] =
     Inr [(''index'', PyStr ''2''), (''framerate'', PyNone), (''codec_type'', PyStr ''subtitle'')]"
  "FFStream_init 0 [''codec_type=video'', ''frames=5''] =
     Inr [(''codec_type'', PyStr ''video''), (''framerate'', PyNone), (''frames'', PyStr ''5'')]"
  "FFStream_init 0 [''codec_type=subtitle'', ''is_video=x''] =
     Inr [(''codec_type'', PyStr ''subtitle''), (''framerate'', PyNone),
          (''is_video'', PyStr ''x'')]"
  by code_simp+

theorem frames_duration_absent_field_witness:
  "frames 0 [(''index'', PyStr ''0''), (''framerate'', PyNone), (''codec_type'', PyStr ''video'')]
     = Inl FFProbeError \<and>
   duration_seconds
     [(''index'', PyStr ''1''), (''framerate'', PyNone), (''codec_type'', PyStr ''audio'')]
     = Inl FFProbeError \<and>
   frames 0 [(''index'', PyStr ''2''), (''framerate'', PyNone), (''codec_type'', PyStr ''subtitle'')]
     = Inr 0 \<and>
   duration_seconds
     [(''index'', PyStr ''2''), (''framerate'', PyNone), (''codec_type'', PyStr ''subtitle'')]
     = Inr (Finite False 0) \<and>
   frames 0 [(''codec_type'', PyStr ''video''), (''framerate'', PyNone), (''frames'', PyStr ''5'')]
     = Inl TypeError \<and>
   frames 0 [(''codec_type'', PyStr ''subtitle''), (''framerate'', PyNone),
             (''is_video'', PyStr ''x'')]
     = Inl TypeError"
  (is "frames 0 ?v = _ \<and> duration_seconds ?a = _ \<and> frames 0 ?s = _ \<and> duration_seconds ?s = _ \<and>
       frames 0 ?f = _ \<and> frames 0 ?x = _")
proof -
  have v: "map_of ?v ''is_video'' = None \<and>
      (is_video_body ?v \<or> (is_audio_body ?v \<and> map_of ?v ''is_audio'' = None))"
    and nv: "map_of ?v ''frames'' = None \<and> map_of ?v ''nb_frames'' = None"
    by (simp_all add: is_video_body_def dict_get_def)
  have a: "map_of ?a ''is_video'' = None \<and>
      (is_video_body ?a \<or> (is_audio_body ?a \<and> map_of ?a ''is_audio'' = None))"
    and na: "map_of ?a ''duration_seconds'' = None \<and> map_of ?a ''duration'' = None"
    by (simp_all add: is_audio_body_def dict_get_def)
  have s: "map_of ?s ''is_video'' = None \<and> map_of ?s ''is_audio'' = None \<and>
      \<not> is_video_body ?s \<and> \<not> is_audio_body ?s"
    and ns: "map_of ?s ''frames'' = None" "map_of ?s ''duration_seconds'' = None"
    by (simp_all add: is_video_body_def is_audio_body_def dict_get_def)
  have f: "map_of ?f ''frames'' \<noteq> None"
    and x: "map_of ?x ''is_video'' \<noteq> None \<or>
      (\<not> is_video_body ?x \<and> map_of ?x ''is_audio'' \<noteq> None)"
    by simp_all
  note tv = frames_duration_absent_field [of ?v 0, THEN conjunct2, THEN conjunct2,
      THEN conjunct2, THEN conjunct1, THEN mp, OF v, THEN conjunct1, THEN mp, OF nv]
  note ta = frames_duration_absent_field [of ?a 0, THEN conjunct2, THEN conjunct2,
      THEN conjunct2, THEN conjunct1, THEN mp, OF a, THEN conjunct2, THEN mp, OF na]
  note ts = frames_duration_absent_field [of ?s 0, THEN conjunct2, THEN conjunct2,
      THEN conjunct2, THEN conjunct2, THEN conjunct1, THEN mp, OF s]
  note tf = frames_duration_absent_field [of ?f 0, THEN conjunct1, THEN mp, OF f]
  note tx = frames_duration_absent_field [of ?x 0, THEN conjunct2, THEN conjunct2,
      THEN conjunct1, THEN mp, OF x, THEN conjunct1]
  from ts ns have ts1: "frames 0 ?s = Inr 0" and ts2: "duration_seconds ?s = Inr (Finite False 0)"
    by simp_all
  from tv ta ts1 ts2 tf tx show ?thesis by (intro conjI)
qed

section \<open>The block parser\<close>

lemma scan_flag:
  "for_each (scan_line maxd) ls (s, dl, strs) = Inr (s', dl', strs') \<Longrightarrow>
     s' = inside_block s ls"
proof (induction ls arbitrary: s dl strs)
  case Nil
  then show ?case by (simp add: inside_block_def)
next
  case (Cons l ls)
  then obtain s1 dl1 strs1 where
    step: "scan_line maxd (s, dl, strs) l = Inr (s1, dl1, strs1)"
    and rest: "for_each (scan_line maxd) ls (s1, dl1, strs1) = Inr (s', dl', strs')"
    by (auto split: sum.splits)
  from step have "s1 = inside_block s [l]"
    by (auto simp: scan_line_def inside_block_def split: if_splits sum.splits)
  with Cons.IH [OF rest] show ?case by (simp add: inside_block_def)
qed

text \<open>The records collected so far are only extended.\<close>

lemma scan_line_acc:
  "scan_line maxd (s, dl, strs) l =
     (case scan_line maxd (s, dl, []) l of
        Inl e \<Rightarrow> Inl e
      | Inr (s', dl', new) \<Rightarrow> Inr (s', dl', strs @ new))"
  by (auto simp: scan_line_def split: sum.splits)

lemma scan_acc:
  "for_each (scan_line maxd) ls (s, dl, strs @ acc) =
     (case for_each (scan_line maxd) ls (s, dl, acc) of
        Inl e \<Rightarrow> Inl e
      | Inr (s', dl', new) \<Rightarrow> Inr (s', dl', strs @ new))"
proof (induction ls arbitrary: s dl acc)
  case Nil
  then show ?case by simp
next
  case (Cons l ls)
  show ?case
  proof (cases "scan_line maxd (s, dl, []) l")
    case (Inl e)
    then show ?thesis
      using scan_line_acc [of maxd s dl "strs @ acc" l] scan_line_acc [of maxd s dl acc l]
      by simp
  next
    case (Inr st)
    obtain s1 dl1 new1 where st: "st = (s1, dl1, new1)" by (cases st)
    have a: "scan_line maxd (s, dl, strs @ acc) l = Inr (s1, dl1, strs @ (acc @ new1))"
      using scan_line_acc [of maxd s dl "strs @ acc" l] Inr st by simp
    have b: "scan_line maxd (s, dl, acc) l = Inr (s1, dl1, acc @ new1)"
      using scan_line_acc [of maxd s dl acc l] Inr st by simp
    show ?thesis
      using Cons.IH [of s1 dl1 "acc @ new1"] a b by simp
  qed
qed

text \<open>Outside a block the lines of the last block are not read again.\<close>

lemma scan_outside_buffer:
  "map_sum id (\<lambda>st. (fst st, snd (snd st))) (for_each (scan_line maxd) ls (False, dl, strs)) =
   map_sum id (\<lambda>st. (fst st, snd (snd st))) (for_each (scan_line maxd) ls (False, dl2, strs))"
proof (induction ls)
  case Nil
  then show ?case by simp
next
  case (Cons l ls)
  show ?case
  proof (cases "substring_in ''[STREAM]'' l")
    case True
    then show ?thesis by (simp add: scan_line_def)
  next
    case False
    then show ?thesis using Cons.IH by (simp add: scan_line_def)
  qed
qed

lemma FFProbe_init_alt:
  "FFProbe_init maxd out err mk =
     (case for_each (scan_line maxd) (out @ err) (False, [], []) of
        Inl e \<Rightarrow> Inl e
      | Inr st \<Rightarrow>
          (case for_each classify (snd (snd st))
               \<lparr>streams = snd (snd st), video = [], audio = [], subtitle = [],
                  attachment = [], container = []\<rparr> of
             Inl e \<Rightarrow> Inl e
           | Inr self \<Rightarrow> for_each container_line mk self))"
  by (auto simp: FFProbe_init_def for_each_append Let_def split: sum.splits prod.splits)

lemma FFProbe_init_streams:
  assumes "FFProbe_init maxd out err mk = Inr r"
  shows "\<exists>s dl self.
     for_each (scan_line maxd) (out @ err) (False, [], []) = Inr (s, dl, streams r) \<and>
     for_each classify (streams r)
       \<lparr>streams = streams r, video = [], audio = [], subtitle = [],
          attachment = [], container = []\<rparr> = Inr self"
proof -
  from assms obtain st self where
    st: "for_each (scan_line maxd) (out @ err) (False, [], []) = Inr st"
    and cl: "for_each classify (snd (snd st))
               \<lparr>streams = snd (snd st), video = [], audio = [], subtitle = [],
                  attachment = [], container = []\<rparr> = Inr self"
    and loop: "for_each container_line mk self = Inr r"
    by (auto simp: FFProbe_init_alt split: sum.splits)
  from container_loop_fields [OF loop] classify_loop_fields [OF cl]
  have "streams r = snd (snd st)" by simp
  with st cl show ?thesis by (cases st) auto
qed

lemma FFProbe_init_no_mk:
  assumes "for_each (scan_line maxd) (out @ err) (False, [], []) = Inr (s, dl, strs)"
    and "for_each classify strs
       \<lparr>streams = strs, video = [], audio = [], subtitle = [],
          attachment = [], container = []\<rparr> = Inr self"
  shows "\<exists>r. FFProbe_init maxd out err [] = Inr r \<and> streams r = strs \<and> container r = []"
  using assms classify_loop_fields [OF assms(2)] by (simp add: FFProbe_init_alt)

text \<open>
  C4, as amended. The two loops share the parser state: the scan of \<^verbatim>\<open>stderr\<close> starts
  in the state in which the scan of \<^verbatim>\<open>stdout\<close> ended. When \<^verbatim>\<open>stdout\<close> ends outside a
  block, the records taken from \<^verbatim>\<open>stderr\<close> are those of \<^verbatim>\<open>stderr\<close> scanned alone, so they
  depend on the \<^verbatim>\<open>stderr\<close> lines only, and the full list is the records of \<^verbatim>\<open>stdout\<close>
  followed by the records of \<^verbatim>\<open>stderr\<close>, each in the order met.
\<close>

theorem channels_concatenated:
  assumes "\<not> inside_block False out" and "FFProbe_init maxd out err mk = Inr r"
  shows "\<exists>r1 r2. FFProbe_init maxd out [] [] = Inr r1 \<and> FFProbe_init maxd [] err [] = Inr r2 \<and>
     streams r = streams r1 @ streams r2"
proof -
  from FFProbe_init_streams [OF assms(2)] obtain s dl self where
    all: "for_each (scan_line maxd) (out @ err) (False, [], []) = Inr (s, dl, streams r)"
    and cl: "for_each classify (streams r)
       \<lparr>streams = streams r, video = [], audio = [], subtitle = [],
          attachment = [], container = []\<rparr> = Inr self"
    by blast
  then obtain s1 dl1 strs1 where
    o: "for_each (scan_line maxd) out (False, [], []) = Inr (s1, dl1, strs1)"
    and e: "for_each (scan_line maxd) err (s1, dl1, strs1) = Inr (s, dl, streams r)"
    by (auto simp: for_each_append split: sum.splits)
  from scan_flag [OF o] assms(1) have s1: "s1 = False" by simp
  from e have "for_each (scan_line maxd) err (False, dl1, strs1 @ []) = Inr (s, dl, streams r)"
    by (simp add: s1)
  then obtain new where
    e0: "for_each (scan_line maxd) err (False, dl1, []) = Inr (s, dl, new)"
    and cat: "streams r = strs1 @ new"
    unfolding scan_acc by (auto split: sum.splits)
  from scan_outside_buffer [of maxd err dl1 "[]" "[]"] e0
  obtain dl2 where e1: "for_each (scan_line maxd) err (False, [], []) = Inr (s, dl2, new)"
    by (cases "for_each (scan_line maxd) err (False, [], [])") (auto simp: prod_eq_iff)
  from cl cat have cl': "for_each classify (strs1 @ new)
       \<lparr>streams = strs1 @ new, video = [], audio = [], subtitle = [],
          attachment = [], container = []\<rparr> = Inr self"
    by simp
  from classify_loop_returns [OF cl',
      where ?self1.0 = "\<lparr>streams = strs1, video = [], audio = [], subtitle = [],
          attachment = [], container = []\<rparr>"
      and ?self2.0 = "\<lparr>streams = new, video = [], audio = [], subtitle = [],
          attachment = [], container = []\<rparr>"]
  obtain self1 self2 where
    cl1: "for_each classify strs1
       \<lparr>streams = strs1, video = [], audio = [], subtitle = [],
          attachment = [], container = []\<rparr> = Inr self1"
    and cl2: "for_each classify new
       \<lparr>streams = new, video = [], audio = [], subtitle = [],
          attachment = [], container = []\<rparr> = Inr self2"
    by blast
  from o have "for_each (scan_line maxd) (out @ []) (False, [], []) = Inr (s1, dl1, strs1)"
    by simp
  from FFProbe_init_no_mk [OF this cl1] obtain r1 where
    r1: "FFProbe_init maxd out [] [] = Inr r1" "streams r1 = strs1" by blast
  from e1 have "for_each (scan_line maxd) ([] @ err) (False, [], []) = Inr (s, dl2, new)"
    by simp
  from FFProbe_init_no_mk [OF this cl2] obtain r2 where
    r2: "FFProbe_init maxd [] err [] = Inr r2" "streams r2 = new" by blast
  from r1 r2 cat show ?thesis by simp
qed

lemma channels_example:
  "FFProbe_init 0 [''[STREAM]'', ''codec_type=video'', ''[/STREAM]'']
     [''[STREAM]'', ''codec_type=audio'', ''[/STREAM]''] [] =
   Inr \<lparr>streams =
        [[(''codec_type'', PyStr ''video''), (''framerate'', PyNone)],
         [(''codec_type'', PyStr ''audio''), (''framerate'', PyNone)]],
        video = [[(''codec_type'', PyStr ''video''), (''framerate'', PyNone)]],
        audio = [[(''codec_type'', PyStr ''audio''), (''framerate'', PyNone)]],
        subtitle = [], attachment = [], container = []\<rparr>"
  "FFProbe_init 0 [''[STREAM]'', ''codec_type=video'', ''[/STREAM]''] [] [] =
   Inr \<lparr>streams = [[(''codec_type'', PyStr ''video''), (''framerate'', PyNone)]],
        video = [[(''codec_type'', PyStr ''video''), (''framerate'', PyNone)]],
        audio = [], subtitle = [], attachment = [], container = []\<rparr>"
  "FFProbe_init 0 [] [''[STREAM]'', ''codec_type=audio'', ''[/STREAM]''] [] =
   Inr \<lparr>streams = [[(''codec_type'', PyStr ''audio''), (''framerate'', PyNone)]],
        video = [],
        audio = [[(''codec_type'', PyStr ''audio''), (''framerate'', PyNone)]],
        subtitle = [], attachment = [], container = []\<rparr>"
  "\<not> inside_block False [''[STREAM]'', ''codec_type=video'', ''[/STREAM]'']"
  by code_simp+

theorem channels_concatenated_witness:
  "\<exists>r1 r2.
     FFProbe_init 0 [''[STREAM]'', ''codec_type=video'', ''[/STREAM]''] [] [] = Inr r1 \<and>
     FFProbe_init 0 [] [''[STREAM]'', ''codec_type=audio'', ''[/STREAM]''] [] = Inr r2 \<and>
     [[(''codec_type'', PyStr ''video''), (''framerate'', PyNone)],
      [(''codec_type'', PyStr ''audio''), (''framerate'', PyNone)]] = streams r1 @ streams r2"
  using channels_concatenated [OF channels_example(4) channels_example(1)] by simp

theorem channels_independent_counterexample:
  "FFProbe_init 0 [] [] [] =
     Inr \<lparr>streams = [], video = [], audio = [], subtitle = [], attachment = [],
          container = []\<rparr> \<and>
   FFProbe_init 0 [''[STREAM]''] [] [] =
     Inr \<lparr>streams = [], video = [], audio = [], subtitle = [], attachment = [],
          container = []\<rparr> \<and>
   FFProbe_init 0 [] [''codec_type=audio'', ''[/STREAM]''] [] =
     Inr \<lparr>streams = [], video = [], audio = [], subtitle = [], attachment = [],
          container = []\<rparr> \<and>
   FFProbe_init 0 [''[STREAM]''] [''codec_type=audio'', ''[/STREAM]''] [] =
     Inr \<lparr>streams = [[(''codec_type'', PyStr ''audio''), (''framerate'', PyNone)]],
          video = [],
          audio = [[(''codec_type'', PyStr ''audio''), (''framerate'', PyNone)]],
          subtitle = [], attachment = [], container = []\<rparr>"
  by code_simp

lemma scan_open_body:
  assumes "\<forall>b \<in> set body. \<not> substring_in ''[/STREAM]'' b"
  shows "\<exists>dl'. for_each (scan_line maxd) body (True, dl, strs) = Inr (True, dl', strs)"
  using assms
proof (induction body arbitrary: dl)
  case Nil
  then show ?case by simp
next
  case (Cons b body)
  then have nb: "\<not> substring_in ''[/STREAM]'' b" by simp
  have "scan_line maxd (True, dl, strs) b = Inr (True, [], strs) \<or>
        scan_line maxd (True, dl, strs) b = Inr (True, dl @ [b], strs)"
    using nb by (simp add: scan_line_def)
  then show ?case using Cons by auto
qed

text \<open>
  C5, as amended. A block that is still open when the lines of \<^verbatim>\<open>stderr\<close>, the channel
  scanned last, end yields no record, and its buffered lines are dropped, whatever
  they are; no exception comes from it and nothing is reported about it: the analysis
  returns exactly what it returns without the unterminated block. (A block that
  is still open at the end of \<^verbatim>\<open>stdout\<close> stays open into the scan of \<^verbatim>\<open>stderr\<close>.)
\<close>

theorem unterminated_block_dropped:
  assumes "substring_in ''[STREAM]'' l"
    and "\<forall>b \<in> set body. \<not> substring_in ''[/STREAM]'' b"
  shows "FFProbe_init maxd out (err @ l # body) mk = FFProbe_init maxd out err mk"
proof (cases "for_each (scan_line maxd) (out @ err) (False, [], [])")
  case (Inl e)
  then have "for_each (scan_line maxd) (out @ err @ l # body) (False, [], []) = Inl e"
    using for_each_append [of "scan_line maxd" "out @ err" "l # body" "(False, [], [])"]
    by simp
  with Inl show ?thesis by (simp add: FFProbe_init_alt)
next
  case (Inr st)
  obtain s dl strs where st: "st = (s, dl, strs)" by (cases st)
  have step: "scan_line maxd (s, dl, strs) l = Inr (True, [], strs)"
    using assms(1) by (simp add: scan_line_def)
  from scan_open_body [OF assms(2), of maxd "[]" strs] obtain dl' where
    b: "for_each (scan_line maxd) body (True, [], strs) = Inr (True, dl', strs)" by blast
  have "for_each (scan_line maxd) (out @ err @ l # body) (False, [], []) = Inr (True, dl', strs)"
    using for_each_append [of "scan_line maxd" "out @ err" "l # body" "(False, [], [])"]
      Inr st step b by simp
  with Inr st show ?thesis by (simp add: FFProbe_init_alt)
qed

lemma unterminated_example:
  "substring_in ''[STREAM]'' ''[STREAM]''"
  "\<forall>b \<in> set [''codec_type=video'', ''no equals sign''].
     \<not> substring_in ''[/STREAM]'' b"
  "FFProbe_init 0 [''[STREAM]'', ''codec_type=audio'', ''[/STREAM]''] [] [] =
   Inr \<lparr>streams = [[(''codec_type'', PyStr ''audio''), (''framerate'', PyNone)]],
        video = [],
        audio = [[(''codec_type'', PyStr ''audio''), (''framerate'', PyNone)]],
        subtitle = [], attachment = [], container = []\<rparr>"
  by code_simp+

theorem unterminated_block_dropped_witness:
  "FFProbe_init 0 [''[STREAM]'', ''codec_type=audio'', ''[/STREAM]'']
     [''[STREAM]'', ''codec_type=video'', ''no equals sign''] [] =
   Inr \<lparr>streams = [[(''codec_type'', PyStr ''audio''), (''framerate'', PyNone)]],
        video = [],
        audio = [[(''codec_type'', PyStr ''audio''), (''framerate'', PyNone)]],
        subtitle = [], attachment = [], container = []\<rparr>"
  using unterminated_block_dropped [OF unterminated_example(1) unterminated_example(2),
      of 0 "[''[STREAM]'', ''codec_type=audio'', ''[/STREAM]'']" "[]" "[]"]
    unterminated_example(3)
  by simp

theorem unterminated_block_counterexample:
  "FFProbe_init 0 [''[STREAM]'', ''codec_type=video''] [''[/STREAM]''] [] =
     Inr \<lparr>streams = [[(''codec_type'', PyStr ''video''), (''framerate'', PyNone)]],
          video = [[(''codec_type'', PyStr ''video''), (''framerate'', PyNone)]],
          audio = [], subtitle = [], attachment = [], container = []\<rparr> \<and>
   FFProbe_init 0 [] [''[STREAM]'', ''codec_type=video''] [] =
     Inr \<lparr>streams = [], video = [], audio = [], subtitle = [], attachment = [],
          container = []\<rparr> \<and>
   FFProbe_init 0 [] [] [] =
     Inr \<lparr>streams = [], video = [], audio = [], subtitle = [], attachment = [],
          container = []\<rparr>"
  by code_simp

section \<open>Decoding the lines of a block\<close>

lemma strip_subset: "set (strip l) \<subseteq> set l"
proof
  fix x
  assume "x \<in> set (strip l)"
  then have "x \<in> set (dropWhile py_isspace (rev (dropWhile py_isspace l)))"
    by (simp add: strip_def)
  then have "x \<in> set (rev (dropWhile py_isspace l))"
    by (rule set_dropWhileD)
  then have "x \<in> set (dropWhile py_isspace l)" by simp
  then show "x \<in> set l" by (rule set_dropWhileD)
qed

lemma py_split_no_sep: "c \<notin> set s \<Longrightarrow> py_split c s = [s]"
  by (induction s) auto

lemma stream_field_no_eq: "CHR ''='' \<notin> set l \<Longrightarrow> stream_field l = Inl ValueError"
proof -
  assume "CHR ''='' \<notin> set l"
  with strip_subset [of l] have "CHR ''='' \<notin> set (strip l)" by blast
  then have "py_split CHR ''='' (strip l) = [strip l]" by (rule py_split_no_sep)
  then show ?thesis by (simp add: stream_field_def)
qed

lemma FFStream_line_no_eq: "CHR ''='' \<notin> set l \<Longrightarrow> FFStream_line maxd d l = Inl ValueError"
  by (simp add: FFStream_line_def stream_field_no_eq)

lemma for_each_raises:
  assumes "bad \<in> set ls" and "\<And>s. body s bad = Inl e0"
  shows "\<exists>e. for_each body ls s = Inl e"
  using assms(1)
proof (induction ls arbitrary: s)
  case Nil
  then show ?case by simp
next
  case (Cons x ls)
  show ?case
  proof (cases "body s x")
    case (Inl e)
    then show ?thesis by simp
  next
    case (Inr s')
    with Cons assms(2) have "bad \<in> set ls" by auto
    from Cons.IH [OF this, of s'] Inr show ?thesis by simp
  qed
qed

lemma scan_plain_body:
  assumes "\<forall>b \<in> set body. \<not> substring_in ''[STREAM]'' b \<and> \<not> substring_in ''[/STREAM]'' b"
  shows "for_each (scan_line maxd) body (True, dl, strs) = Inr (True, dl @ body, strs)"
  using assms by (induction body arbitrary: dl) (simp_all add: scan_line_def)

text \<open>
  C2, as amended. A body line with no \<^verbatim>\<open>=\<close> raises \<^verbatim>\<open>ValueError\<close> when the record of its
  block is built, and nothing catches it. So when a completed block of either channel
  has such a line, the analysis is aborted: it raises and returns no record at all,
  also none for the well-formed blocks before and after.
\<close>

theorem malformed_line_aborts:
  assumes "out @ err = pre @ [l] @ body @ [c] @ post"
    and "substring_in ''[STREAM]'' l"
    and "\<forall>b \<in> set body. \<not> substring_in ''[STREAM]'' b \<and> \<not> substring_in ''[/STREAM]'' b"
    and "substring_in ''[/STREAM]'' c" and "\<not> substring_in ''[STREAM]'' c"
    and "bad \<in> set body" and "CHR ''='' \<notin> set bad"
  shows "(\<exists>e. FFProbe_init maxd out err mk = Inl e) \<and>
    FFStream_line maxd d bad = Inl ValueError"
proof -
  have line: "FFStream_line maxd d' bad = Inl ValueError" for d'
    using assms(7) by (rule FFStream_line_no_eq)
  from for_each_raises [OF assms(6), of "FFStream_line maxd" ValueError "[]"] line
  obtain e0 where rec: "FFStream_init maxd body = Inl e0"
    by (auto simp: FFStream_init_def)
  have "\<exists>e. for_each (scan_line maxd) (pre @ [l] @ body @ [c] @ post) (False, [], []) = Inl e"
  proof (cases "for_each (scan_line maxd) pre (False, [], [])")
    case (Inl e)
    then show ?thesis by (simp add: for_each_append)
  next
    case (Inr st)
    obtain s dl strs where st: "st = (s, dl, strs)" by (cases st)
    have 1: "scan_line maxd (s, dl, strs) l = Inr (True, [], strs)"
      using assms(2) by (simp add: scan_line_def)
    have 2: "for_each (scan_line maxd) body (True, [], strs) = Inr (True, body, strs)"
      using scan_plain_body [OF assms(3), of maxd "[]" strs] by simp
    have 3: "scan_line maxd (True, body, strs) c = Inl e0"
      using assms(4,5) rec by (simp add: scan_line_def)
    show ?thesis
      using Inr st 1 2 3 by (simp add: for_each_append)
  qed
  then obtain e where
    "for_each (scan_line maxd) (out @ err) (False, [], []) = Inl e"
    using assms(1) by auto
  then have "FFProbe_init maxd out err mk = Inl e" by (simp add: FFProbe_init_alt)
  with line show ?thesis by blast
qed

lemma malformed_example:
  "[''[STREAM]'', ''codec_type=audio'', ''[/STREAM]'', ''[STREAM]'', ''codec_type'',
    ''[/STREAM]''] @ [''[STREAM]'', ''codec_type=video'', ''[/STREAM]''] =
   [''[STREAM]'', ''codec_type=audio'', ''[/STREAM]''] @ [''[STREAM]''] @ [''codec_type''] @
   [''[/STREAM]''] @ [''[STREAM]'', ''codec_type=video'', ''[/STREAM]'']"
  "substring_in ''[STREAM]'' ''[STREAM]''"
  "\<forall>b \<in> set [''codec_type'']. \<not> substring_in ''[STREAM]'' b \<and> \<not> substring_in ''[/STREAM]'' b"
  "substring_in ''[/STREAM]'' ''[/STREAM]''" "\<not> substring_in ''[STREAM]'' ''[/STREAM]''"
  "''codec_type'' \<in> set [''codec_type'']" "CHR ''='' \<notin> set ''codec_type''"
  by simp_all

theorem malformed_line_aborts_witness:
  "(\<exists>e. FFProbe_init 0
      [''[STREAM]'', ''codec_type=audio'', ''[/STREAM]'', ''[STREAM]'', ''codec_type'',
       ''[/STREAM]'']
      [''[STREAM]'', ''codec_type=video'', ''[/STREAM]''] [] = Inl e) \<and>
   FFStream_line 0 [] ''codec_type'' = Inl ValueError"
  by (rule malformed_line_aborts [OF malformed_example])

theorem malformed_line_counterexample:
  "FFProbe_init 0
     [''[STREAM]'', ''codec_type'', ''[/STREAM]'',
      ''[STREAM]'', ''codec_type=video'', ''[/STREAM]''] [] [] = Inl ValueError \<and>
   FFProbe_init 0 [''[STREAM]'', ''codec_type=video'', ''[/STREAM]''] [] [] =
     Inr \<lparr>streams = [[(''codec_type'', PyStr ''video''), (''framerate'', PyNone)]],
          video = [[(''codec_type'', PyStr ''video''), (''framerate'', PyNone)]],
          audio = [], subtitle = [], attachment = [], container = []\<rparr>"
  by code_simp

section \<open>The container bit rate\<close>

lemma strip_id:
  assumes "s \<noteq> []" "\<not> py_isspace (hd s)" "\<not> py_isspace (last s)"
  shows "strip s = s"
proof -
  have a: "dropWhile py_isspace s = s"
    using assms by (cases s) auto
  have "dropWhile py_isspace (rev s) = rev s"
    using assms by (cases "rev s") (auto simp: last_rev [symmetric] hd_rev)
  then show ?thesis by (simp add: strip_def a)
qed

lemma digit_not_py_space: "is_digit c \<Longrightarrow> \<not> py_isspace c"
  by (auto simp: is_digit_def py_isspace_def)

lemma digit_not_eq: "is_digit c \<Longrightarrow> c \<noteq> CHR ''=''"
  by (auto simp: is_digit_def)

lemma py_split_first:
  "c \<notin> set k \<Longrightarrow> py_split c (k @ c # r) = k # py_split c r"
  by (induction k) auto

lemma FFContainer_init_digits:
  assumes "list_all is_digit ds"
  shows "FFContainer_init [''container_bitrate='' @ ds] = Inr [(''container_bitrate'', PyStr ds)]"
proof -
  have last: "\<not> py_isspace (last (''container_bitrate='' @ ds))"
  proof (cases "ds = []")
    case True
    then show ?thesis by (simp add: py_isspace_def)
  next
    case False
    then have "is_digit (last ds)" using assms by (simp add: list_all_iff)
    with False show ?thesis by (simp add: digit_not_py_space)
  qed
  have "strip (''container_bitrate='' @ ds) = ''container_bitrate='' @ ds"
    by (rule strip_id) (use last in \<open>simp_all add: py_isspace_def\<close>)
  moreover have "CHR ''='' \<notin> set ds"
    using assms digit_not_eq by (auto simp: list_all_iff)
  then have "py_split CHR ''='' (''container_bitrate'' @ CHR ''='' # ds) =
      [''container_bitrate'', ds]"
    by (subst py_split_first) (simp_all add: py_split_no_sep)
  ultimately show ?thesis
    by (simp add: FFContainer_init_def FFContainer_line_def container_field_def)
qed

lemma container_line_cases:
  "container_line self l =
     (if re_search stream_re l = None then Inr self
      else if re_search bit_re l = None then Inl AttributeError
      else Inr (self\<lparr>container :=
             container self @ [[(''container_bitrate'', PyStr (bit_digits l))]]\<rparr>))"
proof -
  have "FFContainer_init [''container_bitrate='' @ filter is_digit t] =
      Inr [(''container_bitrate'', PyStr (filter is_digit t))]" for t
    by (rule FFContainer_init_digits) (simp add: list_all_iff)
  note c = this [simplified]
  show ?thesis
    by (auto simp: container_line_def bit_digits_def Let_def c split: option.splits)
qed

lemma container_loop_records:
  assumes "for_each container_line mk self = Inr r"
  shows "container r = container self @
     map (\<lambda>l. [(''container_bitrate'', PyStr (bit_digits l))])
       (filter (\<lambda>l. re_search stream_re l \<noteq> None) mk)"
  using assms
proof (induction mk arbitrary: self)
  case Nil
  then show ?case by simp
next
  case (Cons l mk)
  then obtain s1 where s1: "container_line self l = Inr s1"
    and rest: "for_each container_line mk s1 = Inr r"
    by (auto split: sum.splits)
  from s1 have "container s1 = container self @
      map (\<lambda>l. [(''container_bitrate'', PyStr (bit_digits l))])
        (filter (\<lambda>l. re_search stream_re l \<noteq> None) [l])"
    by (auto simp: container_line_cases split: if_splits)
  with Cons.IH [OF rest] show ?case by simp
qed

lemma container_loop_no_match:
  "\<forall>l \<in> set mk. re_search stream_re l = None \<Longrightarrow> for_each container_line mk self = Inr self"
  by (induction mk) (simp_all add: container_line_cases)

lemma FFProbe_init_mk:
  "FFProbe_init maxd out err mk =
     (case FFProbe_init maxd out err [] of
        Inl e \<Rightarrow> Inl e
      | Inr r0 \<Rightarrow> for_each container_line mk r0)"
  by (simp add: FFProbe_init_alt split: sum.splits)

lemma FFProbe_init_no_container:
  assumes "FFProbe_init maxd out err [] = Inr r0"
  shows "container r0 = []"
proof -
  from assms obtain st where
    cl: "for_each classify (snd (snd st))
               \<lparr>streams = snd (snd st), video = [], audio = [], subtitle = [],
                  attachment = [], container = []\<rparr> = Inr r0"
    by (auto simp: FFProbe_init_alt split: sum.splits)
  from classify_loop_fields [OF cl] show ?thesis by simp
qed

text \<open>
  C3, as amended. An analysis that returns has one container record for every line of
  the diagnostic channel of the second call that matches the duration pattern, in the
  order of the lines, each holding the digits taken from its line: several matching
  lines give several records, none is ignored. When no line matches, the scan adds no
  record and raises nothing: the analysis ends as it does with no diagnostic lines,
  and then it has no container record.
\<close>

theorem container_record_per_matching_line:
  "(FFProbe_init maxd out err mk = Inr r \<longrightarrow>
      container r =
        map (\<lambda>l. [(''container_bitrate'', PyStr (bit_digits l))])
          (filter (\<lambda>l. re_search stream_re l \<noteq> None) mk)) \<and>
   ((\<forall>l \<in> set mk. re_search stream_re l = None) \<longrightarrow>
      FFProbe_init maxd out err mk = FFProbe_init maxd out err []) \<and>
   (FFProbe_init maxd out err [] = Inr r0 \<longrightarrow> container r0 = [])"
proof -
  have a: "container r =
      map (\<lambda>l. [(''container_bitrate'', PyStr (bit_digits l))])
        (filter (\<lambda>l. re_search stream_re l \<noteq> None) mk)"
    if "FFProbe_init maxd out err mk = Inr r"
  proof -
    from that obtain r1 where r1: "FFProbe_init maxd out err [] = Inr r1"
      and loop: "for_each container_line mk r1 = Inr r"
      by (subst (asm) FFProbe_init_mk) (auto split: sum.splits)
    from container_loop_records [OF loop] FFProbe_init_no_container [OF r1]
    show ?thesis by simp
  qed
  have b: "FFProbe_init maxd out err mk = FFProbe_init maxd out err []"
    if "\<forall>l \<in> set mk. re_search stream_re l = None"
    by (subst FFProbe_init_mk) (simp add: container_loop_no_match [OF that] split: sum.splits)
  from a b FFProbe_init_no_container show ?thesis by blast
qed

lemma duration_line_search:
  "re_search stream_re ''Duration: 00:01:02.34, start: 0.000000, bitrate: 128 kb/s''
     = Some (0, 13)"
  "re_search bit_re ''Duration: 00:01:02.34, start: 0.000000, bitrate: 128 kb/s''
     = Some (48, 7)"
  by code_simp+

lemma duration_line_digits:
  "bit_digits ''Duration: 00:01:02.34, start: 0.000000, bitrate: 128 kb/s'' = ''128''"
  by (simp add: bit_digits_def duration_line_search re_group_def is_digit_def)

lemma other_line_search:
  "re_search stream_re ''Input #0, matroska,webm, from 'a.mkv':'' = None"
  by code_simp

lemma short_line_search:
  "re_search stream_re ''Duration: 00:00:09.00, bitrate: 64 kb/s'' = Some (0, 13)"
  "re_search bit_re ''Duration: 00:00:09.00, bitrate: 64 kb/s'' = Some (31, 6)"
  by code_simp+

lemma short_line_digits:
  "bit_digits ''Duration: 00:00:09.00, bitrate: 64 kb/s'' = ''64''"
  by (simp add: bit_digits_def short_line_search re_group_def is_digit_def)

lemma container_line_duration:
  "container_line self ''Duration: 00:01:02.34, start: 0.000000, bitrate: 128 kb/s'' =
     Inr (self\<lparr>container := container self @ [[(''container_bitrate'', PyStr ''128'')]]\<rparr>)"
  unfolding container_line_cases duration_line_search duration_line_digits by simp

lemma container_line_short:
  "container_line self ''Duration: 00:00:09.00, bitrate: 64 kb/s'' =
     Inr (self\<lparr>container := container self @ [[(''container_bitrate'', PyStr ''64'')]]\<rparr>)"
  unfolding container_line_cases short_line_search short_line_digits by simp

lemma empty_analysis:
  "FFProbe_init maxd [] [] [] =
     Inr \<lparr>streams = [], video = [], audio = [], subtitle = [], attachment = [],
          container = []\<rparr>"
  by (simp add: FFProbe_init_def)

lemma two_duration_lines:
  "FFProbe_init 0 [] []
     [''Duration: 00:01:02.34, start: 0.000000, bitrate: 128 kb/s'',
      ''Duration: 00:00:09.00, bitrate: 64 kb/s''] =
   Inr \<lparr>streams = [], video = [], audio = [], subtitle = [], attachment = [],
        container = [[(''container_bitrate'', PyStr ''128'')],
                     [(''container_bitrate'', PyStr ''64'')]]\<rparr>"
  by (subst FFProbe_init_mk)
    (simp add: empty_analysis container_line_duration container_line_short)

theorem container_record_per_matching_line_witness:
  "FFProbe_init 0 [] [] [''Input #0, matroska,webm, from 'a.mkv':''] =
     Inr \<lparr>streams = [], video = [], audio = [], subtitle = [], attachment = [],
          container = []\<rparr> \<and>
   map (\<lambda>l. [(''container_bitrate'', PyStr (bit_digits l))])
     (filter (\<lambda>l. re_search stream_re l \<noteq> None)
        [''Duration: 00:01:02.34, start: 0.000000, bitrate: 128 kb/s'',
         ''Duration: 00:00:09.00, bitrate: 64 kb/s'']) =
     [[(''container_bitrate'', PyStr ''128'')], [(''container_bitrate'', PyStr ''64'')]]"
proof -
  have none: "\<forall>l \<in> set [''Input #0, matroska,webm, from 'a.mkv':'']. re_search stream_re l = None"
    by (simp add: other_line_search)
  from container_record_per_matching_line [of 0 "[]" "[]"
      "[''Input #0, matroska,webm, from 'a.mkv':'']"] none
  have a: "FFProbe_init 0 [] [] [''Input #0, matroska,webm, from 'a.mkv':''] =
      FFProbe_init 0 [] [] []"
    by blast
  from container_record_per_matching_line [THEN conjunct1, THEN mp, OF two_duration_lines]
  have b: "map (\<lambda>l. [(''container_bitrate'', PyStr (bit_digits l))])
     (filter (\<lambda>l. re_search stream_re l \<noteq> None)
        [''Duration: 00:01:02.34, start: 0.000000, bitrate: 128 kb/s'',
         ''Duration: 00:00:09.00, bitrate: 64 kb/s'']) =
     [[(''container_bitrate'', PyStr ''128'')], [(''container_bitrate'', PyStr ''64'')]]"
    by simp
  from a b show ?thesis by (simp only: empty_analysis simp_thms)
qed

theorem single_container_record_counterexample:
  "FFProbe_init 0 [] []
     [''Duration: 00:01:02.34, start: 0.000000, bitrate: 128 kb/s'',
      ''Duration: 00:00:09.00, bitrate: 64 kb/s''] =
   Inr \<lparr>streams = [], video = [], audio = [], subtitle = [], attachment = [],
        container = [[(''container_bitrate'', PyStr ''128'')],
                     [(''container_bitrate'', PyStr ''64'')]]\<rparr>"
  by (rule two_duration_lines)

lemma container_bitrate_body_digits:
  assumes "ds \<noteq> []" "list_all is_digit ds" "length ds \<le> 640"
  shows "container_bitrate_body maxd [(''container_bitrate'', PyStr ds)] = Inr (decimal_value ds)"
  using py_int_digits [of ds maxd] assms
  by (simp add: container_bitrate_body_def dict_get_def int_of_val_def
      value_error_to_ffprobe_error_def)

text \<open>
  Every container record that an analysis builds has the field \<^verbatim>\<open>container_bitrate\<close>,
  the only field that \<^verbatim>\<open>FFProbe.__init__\<close> gives it, so the call of its accessor raises.
\<close>

lemma container_bitrate_raises:
  assumes "FFProbe_init maxd out err mk = Inr r" and "c \<in> set (container r)"
  shows "container_bitrate maxd' c = Inl TypeError"
proof -
  from assms(1) obtain r1 where r1: "FFProbe_init maxd out err [] = Inr r1"
    and loop: "for_each container_line mk r1 = Inr r"
    by (subst (asm) FFProbe_init_mk) (auto split: sum.splits)
  from container_loop_records [OF loop] FFProbe_init_no_container [OF r1] assms(2)
  obtain l where "c = [(''container_bitrate'', PyStr (bit_digits l))]" by auto
  then show ?thesis by (simp add: container_bitrate_def call_method_def)
qed

text \<open>
  C6. When the diagnostic lines of the second call hold the line
  \<^verbatim>\<open>Duration: 00:01:02.34, start: 0.000000, bitrate: 128 kb/s\<close>, and no other line of them
  matches the duration pattern, the analysis has one container record, with the
  digits \<^verbatim>\<open>128\<close> in its field \<^verbatim>\<open>container_bitrate\<close>: the number as it is written, in the
  unit of the line. The body of \<^verbatim>\<open>container_bitrate\<close> would return the integer 128 for
  it. The call \<^verbatim>\<open>container_bitrate()\<close> on the record does not reach the body: the field
  is stored in the instance dictionary under the name of the method, the lookup finds
  the string, and the call raises \<^verbatim>\<open>TypeError\<close>.
\<close>

theorem container_bitrate_of_duration_line:
  assumes "\<forall>l \<in> set pre \<union> set post. re_search stream_re l = None"
    and "FFProbe_init maxd out err [] = Inr r0"
  shows "FFProbe_init maxd out err
       (pre @ [''Duration: 00:01:02.34, start: 0.000000, bitrate: 128 kb/s''] @ post) =
       Inr (r0\<lparr>container := [[(''container_bitrate'', PyStr ''128'')]]\<rparr>) \<and>
     container_bitrate maxd [(''container_bitrate'', PyStr ''128'')] = Inl TypeError \<and>
     container_bitrate_body maxd [(''container_bitrate'', PyStr ''128'')] = Inr 128"
proof -
  have pre: "for_each container_line pre r0 = Inr r0"
    using assms(1) by (simp add: container_loop_no_match)
  have line: "container_line r0 ''Duration: 00:01:02.34, start: 0.000000, bitrate: 128 kb/s'' =
      Inr (r0\<lparr>container := [[(''container_bitrate'', PyStr ''128'')]]\<rparr>)"
    using FFProbe_init_no_container [OF assms(2)]
    by (simp add: container_line_duration)
  have post: "for_each container_line post (r0\<lparr>container := [c]\<rparr>) = Inr (r0\<lparr>container := [c]\<rparr>)"
    for c
    using assms(1) by (simp add: container_loop_no_match)
  have "FFProbe_init maxd out err
       (pre @ [''Duration: 00:01:02.34, start: 0.000000, bitrate: 128 kb/s''] @ post) =
       Inr (r0\<lparr>container := [[(''container_bitrate'', PyStr ''128'')]]\<rparr>)"
    by (subst FFProbe_init_mk) (simp add: assms(2) for_each_append pre line post)
  moreover have "container_bitrate_body maxd [(''container_bitrate'', PyStr ''128'')] = Inr 128"
    using container_bitrate_body_digits [of "''128''" maxd]
    by (simp add: is_digit_def decimal_value_def digit_val_def)
  moreover have "container_bitrate maxd [(''container_bitrate'', PyStr ''128'')] = Inl TypeError"
    by (simp add: container_bitrate_def call_method_def)
  ultimately show ?thesis by (intro conjI)
qed

lemma duration_line_example:
  "\<forall>l \<in> set [''Input #0, matroska,webm, from 'a.mkv':''] \<union> set []. re_search stream_re l = None"
  by (simp add: other_line_search)

theorem container_bitrate_of_duration_line_witness:
  "FFProbe_init 0 [] []
       ([''Input #0, matroska,webm, from 'a.mkv':''] @
        [''Duration: 00:01:02.34, start: 0.000000, bitrate: 128 kb/s''] @ []) =
       Inr (\<lparr>streams = [], video = [], audio = [], subtitle = [], attachment = [],
          container = []\<rparr>\<lparr>container := [[(''container_bitrate'', PyStr ''128'')]]\<rparr>) \<and>
     container_bitrate 0 [(''container_bitrate'', PyStr ''128'')] = Inl TypeError \<and>
     container_bitrate_body 0 [(''container_bitrate'', PyStr ''128'')] = Inr 128"
  by (rule container_bitrate_of_duration_line [OF duration_line_example empty_analysis])

section \<open>The raw field mapping\<close>

lemma stream_field_two:
  assumes "CHR ''='' \<notin> set k" "CHR ''='' \<notin> set v" "strip line = k @ ''='' @ v"
  shows "stream_field line = Inr (k, v)"
proof -
  have "py_split CHR ''='' (k @ CHR ''='' # v) = [k, v]"
    using assms(1,2) by (simp add: py_split_first py_split_no_sep)
  then show ?thesis using assms(3) by (simp add: stream_field_def)
qed

lemma stream_field_more:
  assumes "CHR ''='' \<notin> set k" "CHR ''='' \<notin> set v" "strip line = k @ ''='' @ v @ ''='' @ w"
  shows "stream_field line = Inr (k, v)"
proof -
  have "py_split CHR ''='' (k @ CHR ''='' # v @ CHR ''='' # w) = k # v # py_split CHR ''='' w"
    using assms(1,2) by (simp add: py_split_first)
  then show ?thesis using assms(3) by (simp add: stream_field_def)
qed

lemma FFStream_line_result:
  assumes "FFStream_line maxd d line = Inr d'"
  shows "\<exists>k v x. stream_field line = Inr (k, v) \<and>
     d' = AList.update ''framerate'' x (AList.update k (PyStr v) d)"
  using assms
  by (auto simp: FFStream_line_def Let_def split: sum.splits prod.splits if_splits)

lemma update_fresh: "k \<notin> fst ` set d \<Longrightarrow> AList.update k v d = d @ [(k, v)]"
  by (induction d) auto

lemma raw_fields_update_framerate:
  "raw_fields (AList.update ''framerate'' x d) = raw_fields d"
  by (induction d) (auto simp: raw_fields_def)

lemma raw_fields_update_fresh:
  "k \<notin> fst ` set d \<Longrightarrow> k \<noteq> ''framerate'' \<Longrightarrow>
     raw_fields (AList.update k v d) = raw_fields d @ [(k, v)]"
  by (simp add: update_fresh raw_fields_def)

lemma decode_fields:
  assumes "for_each (FFStream_line maxd) (map (\<lambda>kv. field_line (fst kv) (snd kv)) kvs) d0 = Inr d"
    and "plain_fields kvs" and "fst ` set kvs \<inter> fst ` set d0 = {}"
  shows "raw_fields d = raw_fields d0 @ map (\<lambda>kv. (fst kv, PyStr (snd kv))) kvs"
  using assms
proof (induction kvs arbitrary: d0)
  case Nil
  then show ?case by simp
next
  case (Cons kv kvs)
  obtain k v where kv: "kv = (k, v)" by (cases kv)
  from Cons.prems(2) have k: "k \<noteq> ''framerate''" "CHR ''='' \<notin> set k" "CHR ''='' \<notin> set v"
    and st: "strip (field_line k v) = k @ ''='' @ v"
    and rest: "plain_fields kvs" and fresh: "k \<notin> fst ` set kvs"
    by (auto simp: plain_fields_def kv field_line_def)
  from Cons.prems(1) obtain d1 where
    d1: "FFStream_line maxd d0 (field_line k v) = Inr d1"
    and loop: "for_each (FFStream_line maxd) (map (\<lambda>kv. field_line (fst kv) (snd kv)) kvs) d1 = Inr d"
    by (auto simp: kv split: sum.splits)
  have sf: "stream_field (field_line k v) = Inr (k, v)"
    using k st by (intro stream_field_two) auto
  from FFStream_line_result [OF d1] sf obtain x where
    d1': "d1 = AList.update ''framerate'' x (AList.update k (PyStr v) d0)" by auto
  have k0: "k \<notin> fst ` set d0" using Cons.prems(3) by (auto simp: kv)
  have raw1: "raw_fields d1 = raw_fields d0 @ [(k, PyStr v)]"
    by (simp add: d1' raw_fields_update_framerate raw_fields_update_fresh k0 k(1))
  have dom1: "fst ` set d1 = insert ''framerate'' (insert k (fst ` set d0))"
    by (auto simp: d1' dom_update)
  have "list_all (\<lambda>kv. fst kv \<noteq> ''framerate'') kvs"
    using rest by (auto simp: plain_fields_def list_all_iff)
  then have "''framerate'' \<notin> fst ` set kvs" by (auto simp: list_all_iff)
  with fresh Cons.prems(3) have disj: "fst ` set kvs \<inter> fst ` set d1 = {}"
    by (auto simp: dom1 kv)
  from Cons.IH [OF loop rest disj] raw1 show ?case by (simp add: kv)
qed

text \<open>
  C1, as amended. The decoder strips each body line, cuts it at every \<^verbatim>\<open>=\<close> and stores
  the first piece as the name and the second piece as the value; later pieces are
  dropped. So for a line \<^verbatim>\<open>a=b=c\<close> the value stored for \<^verbatim>\<open>a\<close> is \<^verbatim>\<open>b\<close>, the text between
  the first and the second \<^verbatim>\<open>=\<close>. Decoding and then re-serializing the raw field
  mapping gives the original lines back, in their order, for a block whose lines have
  one \<^verbatim>\<open>=\<close> each, no whitespace at either end, and names that differ from each other
  and from \<^verbatim>\<open>framerate\<close>.
\<close>

theorem second_piece_is_value:
  "(CHR ''='' \<notin> set k \<and> CHR ''='' \<notin> set v \<and> strip line = k @ ''='' @ v @ ''='' @ w \<longrightarrow>
      stream_field line = Inr (k, v)) \<and>
   (CHR ''='' \<notin> set k \<and> CHR ''='' \<notin> set v \<and> strip line = k @ ''='' @ v @ ''='' @ w \<and>
      k \<noteq> ''framerate'' \<and> FFStream_init maxd [line] = Inr d \<longrightarrow>
      map_of d k = Some (PyStr v)) \<and>
   (plain_fields kvs \<and>
      FFStream_init maxd (map (\<lambda>kv. field_line (fst kv) (snd kv)) kvs) = Inr d' \<longrightarrow>
      reserialize d' = map (\<lambda>kv. field_line (fst kv) (snd kv)) kvs)"
proof -
  have a: "stream_field line = Inr (k, v)"
    if "CHR ''='' \<notin> set k" "CHR ''='' \<notin> set v" "strip line = k @ ''='' @ v @ ''='' @ w"
    using that by (rule stream_field_more)
  have b: "map_of d k = Some (PyStr v)"
    if "CHR ''='' \<notin> set k" "CHR ''='' \<notin> set v" "strip line = k @ ''='' @ v @ ''='' @ w"
      "k \<noteq> ''framerate''" "FFStream_init maxd [line] = Inr d"
  proof -
    from that(5) have "FFStream_line maxd [] line = Inr d"
      by (simp add: FFStream_init_def split: sum.splits)
    from FFStream_line_result [OF this] a [OF that(1-3)] obtain x where
      "d = AList.update ''framerate'' x (AList.update k (PyStr v) [])" by auto
    then show ?thesis using that(4) by (simp add: update_conv')
  qed
  have c: "reserialize d' = map (\<lambda>kv. field_line (fst kv) (snd kv)) kvs"
    if "plain_fields kvs"
      "FFStream_init maxd (map (\<lambda>kv. field_line (fst kv) (snd kv)) kvs) = Inr d'"
  proof -
    from that(2) have "for_each (FFStream_line maxd)
        (map (\<lambda>kv. field_line (fst kv) (snd kv)) kvs) [] = Inr d'"
      by (simp add: FFStream_init_def)
    from decode_fields [OF this that(1)]
    have "raw_fields d' = map (\<lambda>kv. (fst kv, PyStr (snd kv))) kvs"
      by (simp add: raw_fields_def)
    then show ?thesis by (simp add: reserialize_def o_def)
  qed
  from a b c show ?thesis by blast
qed


lemma three_pieces_example:
  "strip ''a=b=c'' = ''a'' @ ''='' @ ''b'' @ ''='' @ ''c''"
  "FFStream_init 0 [''a=b=c''] = Inr [(''a'', PyStr ''b''), (''framerate'', PyNone)]"
  "reserialize [(''a'', PyStr ''b''), (''framerate'', PyNone)] = [''a=b'']"
  by code_simp+

lemma round_trip_example:
  "plain_fields [(''index'', ''0''), (''codec_type'', ''video'')]"
  "FFStream_init 0
     (map (\<lambda>kv. field_line (fst kv) (snd kv)) [(''index'', ''0''), (''codec_type'', ''video'')]) =
   Inr [(''index'', PyStr ''0''), (''framerate'', PyNone), (''codec_type'', PyStr ''video'')]"
  by code_simp+

theorem second_piece_is_value_witness:
  "stream_field ''a=b=c'' = Inr (''a'', ''b'') \<and>
   map_of [(''a'', PyStr ''b''), (''framerate'', PyNone)] ''a'' = Some (PyStr ''b'') \<and>
   reserialize
     [(''index'', PyStr ''0''), (''framerate'', PyNone), (''codec_type'', PyStr ''video'')] =
     [''index=0'', ''codec_type=video'']"
proof -
  note t = second_piece_is_value [of "''a''" "''b''" "''a=b=c''" "''c''" 0
      "[(''a'', PyStr ''b''), (''framerate'', PyNone)]"
      "[(''index'', ''0''), (''codec_type'', ''video'')]"
      "[(''index'', PyStr ''0''), (''framerate'', PyNone), (''codec_type'', PyStr ''video'')]"]
  have h: "CHR ''='' \<notin> set ''a''" "CHR ''='' \<notin> set ''b''" "''a'' \<noteq> ''framerate''"
    by simp_all
  from t h three_pieces_example(1,2) round_trip_example
  have "stream_field ''a=b=c'' = Inr (''a'', ''b'')"
    and "map_of [(''a'', PyStr ''b''), (''framerate'', PyNone)] ''a'' = Some (PyStr ''b'')"
    and "reserialize
     [(''index'', PyStr ''0''), (''framerate'', PyNone), (''codec_type'', PyStr ''video'')] =
     map (\<lambda>kv. field_line (fst kv) (snd kv)) [(''index'', ''0''), (''codec_type'', ''video'')]"
    by blast+
  then show ?thesis by (simp add: field_line_def)
qed

theorem first_equals_only_counterexample:
  "FFStream_init 0 [''a=b=c''] = Inr [(''a'', PyStr ''b''), (''framerate'', PyNone)] \<and>
   map_of [(''a'', PyStr ''b''), (''framerate'', PyNone)] ''a'' = Some (PyStr ''b'') \<and>
   reserialize [(''a'', PyStr ''b''), (''framerate'', PyNone)] = [''a=b'']"
  using three_pieces_example(2,3) by simp

section \<open>The frame rate\<close>

lemma pow2_powi: "pow2 e = 2 powi e"
  by (simp add: pow2_def power_int_def inverse_eq_divide power_one_over)

lemma pow2_pos: "0 < pow2 e"
  by (simp add: pow2_powi)

lemma pow2_add: "pow2 (a + b) = pow2 a * pow2 b"
  by (simp add: pow2_powi power_int_add)

lemma pow2_mono: "a \<le> b \<Longrightarrow> pow2 a \<le> pow2 b"
  by (simp add: pow2_powi power_int_increasing)

lemma pow2_strict_mono: "a < b \<Longrightarrow> pow2 a < pow2 b"
  by (simp add: pow2_powi power_int_strict_increasing)

lemma pow2_nat: "pow2 (int k) = 2 ^ k"
  by (simp add: pow2_def)

lemma bitlen_bounds:
  "0 < n \<Longrightarrow> 1 \<le> bitlen n \<and> 2 ^ nat (bitlen n - 1) \<le> n \<and> n < 2 ^ nat (bitlen n)"
proof (induction n rule: bitlen.induct)
  case (1 n)
  show ?case
  proof (cases "n div 2 \<le> 0")
    case True
    with 1 have "n = 1" by linarith
    then show ?thesis
      by (simp add: bitlen.simps [of 1] bitlen.simps [of 0])
  next
    case False
    then have h: "0 < n div 2" by simp
    define b where "b = bitlen (n div 2)"
    from 1 h have ih: "1 \<le> b" "2 ^ nat (b - 1) \<le> n div 2" "n div 2 < 2 ^ nat b"
      by (simp_all add: b_def)
    have bn: "bitlen n = 1 + b"
      using 1(2) by (simp add: bitlen.simps [of n] b_def)
    have e1: "nat (bitlen n - 1) = Suc (nat (b - 1))" using ih(1) bn by simp
    have e2: "nat (bitlen n) = Suc (nat b)" using ih(1) bn by simp
    have e3: "nat b = Suc (nat (b - 1))" using ih(1) by simp
    have "2 * (n div 2) \<le> n" "n \<le> 2 * (n div 2) + 1" by linarith+
    with ih show ?thesis unfolding e1 e2 using bn by simp
  qed
qed

lemma bitlen_le: "0 \<le> n \<Longrightarrow> n < 2 ^ k \<Longrightarrow> bitlen n \<le> int k"
proof (cases "n = 0")
  case True
  then show ?thesis by (simp add: bitlen.simps [of 0])
next
  case False
  assume "0 \<le> n" "n < 2 ^ k"
  with False have p: "0 < n" by simp
  from bitlen_bounds [OF p] have "2 ^ nat (bitlen n - 1) \<le> n" "1 \<le> bitlen n" by simp_all
  with \<open>n < 2 ^ k\<close> have "(2::int) ^ nat (bitlen n - 1) < 2 ^ k" by linarith
  then have "nat (bitlen n - 1) < k" by simp
  with \<open>1 \<le> bitlen n\<close> show ?thesis by linarith
qed

lemma bitlen_pow2:
  assumes "0 < n"
  shows "pow2 (bitlen n - 1) \<le> of_int n" "of_int n < pow2 (bitlen n)"
proof -
  from bitlen_bounds [OF assms] have b: "1 \<le> bitlen n"
    and lo: "2 ^ nat (bitlen n - 1) \<le> n" and hi: "n < 2 ^ nat (bitlen n)" by simp_all
  have "pow2 (bitlen n - 1) = of_int (2 ^ nat (bitlen n - 1))"
    using b by (simp add: pow2_def)
  also have "\<dots> \<le> of_int n" using lo by (simp only: of_int_le_iff)
  finally show "pow2 (bitlen n - 1) \<le> of_int n" .
  have "(of_int n :: rat) < of_int (2 ^ nat (bitlen n))" using hi by (simp only: of_int_less_iff)
  also have "\<dots> = pow2 (bitlen n)" using b by (simp add: pow2_def)
  finally show "of_int n < pow2 (bitlen n)" .
qed

lemma ilog2_bounds:
  assumes "0 < x"
  shows "pow2 (ilog2 x) \<le> x" "x < pow2 (ilog2 x + 1)"
proof -
  obtain p q where pq: "quotient_of x = (p, q)" by (cases "quotient_of x")
  have q: "0 < q" using quotient_of_denom_pos [OF pq] .
  have x: "x = of_int p / of_int q" using quotient_of_div [OF pq] .
  have p: "0 < p" using assms q x by (simp add: zero_less_divide_iff)
  define e0 where "e0 = bitlen p - bitlen q"
  have il: "ilog2 x = (if pow2 e0 \<le> x then e0 else e0 - 1)"
    by (simp add: ilog2_def pq e0_def Let_def)
  have qpos: "(0::rat) < of_int q" using q by simp
  have up: "x < pow2 (e0 + 1)"
  proof -
    have "of_int p < pow2 (bitlen p)" using bitlen_pow2 [OF p] by simp
    also have "\<dots> = pow2 (e0 + 1) * pow2 (bitlen q - 1)"
      by (simp add: e0_def flip: pow2_add)
    also have "\<dots> \<le> pow2 (e0 + 1) * of_int q"
      using bitlen_pow2(1) [OF q] pow2_pos [of "e0 + 1"] by simp
    finally show ?thesis using qpos by (simp add: x pos_divide_less_eq)
  qed
  have lo: "pow2 (e0 - 1) \<le> x"
  proof -
    have "pow2 (e0 - 1) * of_int q \<le> pow2 (e0 - 1) * pow2 (bitlen q)"
      using bitlen_pow2(2) [OF q] pow2_pos [of "e0 - 1"] by simp
    also have "\<dots> = pow2 (bitlen p - 1)"
      by (simp add: e0_def flip: pow2_add)
    also have "\<dots> \<le> of_int p" using bitlen_pow2(1) [OF p] .
    finally show ?thesis using qpos by (simp add: x pos_le_divide_eq)
  qed
  show "pow2 (ilog2 x) \<le> x" using lo by (simp add: il)
  show "x < pow2 (ilog2 x + 1)" using up by (auto simp: il not_le)
qed

lemma rhe_near: "\<bar>of_int (round_half_even x) - x\<bar> \<le> 1 / 2"
proof -
  have "of_int \<lfloor>x\<rfloor> \<le> x" "x < of_int \<lfloor>x\<rfloor> + 1" by linarith+
  then show ?thesis by (auto simp: round_half_even_def Let_def)
qed

lemma rhe_unique:
  assumes "\<bar>x - of_int k\<bar> < 1 / 2"
  shows "round_half_even x = k"
proof -
  have f: "of_int \<lfloor>x\<rfloor> \<le> x" "x < of_int \<lfloor>x\<rfloor> + 1" by linarith+
  from assms have b: "of_int k - 1 / 2 < x" "x < of_int k + 1 / 2" by linarith+
  have "\<lfloor>x\<rfloor> = k \<or> \<lfloor>x\<rfloor> = k - 1"
  proof -
    have "(of_int \<lfloor>x\<rfloor> :: rat) < of_int k + 1 / 2" using f b by linarith
    then have "(of_int \<lfloor>x\<rfloor> :: rat) < of_int (k + 1)" by simp
    then have 1: "\<lfloor>x\<rfloor> < k + 1" by (simp only: of_int_less_iff)
    have "(of_int k :: rat) - 3 / 2 < of_int \<lfloor>x\<rfloor>" using f b by linarith
    then have "(of_int (k - 2) :: rat) < of_int \<lfloor>x\<rfloor>" by simp
    then have 2: "k - 2 < \<lfloor>x\<rfloor>" by (simp only: of_int_less_iff)
    from 1 2 show ?thesis by linarith
  qed
  then show ?thesis
  proof
    assume e: "\<lfloor>x\<rfloor> = k"
    with b have "x - of_int \<lfloor>x\<rfloor> < 1 / 2" by simp
    then show ?thesis by (simp add: round_half_even_def Let_def e)
  next
    assume e: "\<lfloor>x\<rfloor> = k - 1"
    with b have "1 / 2 < x - of_int \<lfloor>x\<rfloor>" by simp
    then show ?thesis by (simp add: round_half_even_def Let_def e)
  qed
qed

lemma rhe_of_int: "round_half_even (of_int z) = z"
  by (rule rhe_unique) simp

lemma pow2_inverse: "pow2 e * pow2 (- e) = 1"
  using pow2_add [of e "- e"] by (simp add: pow2_def)

lemma round_double_small:
  assumes n: "0 < n" "n < 2 ^ 52" and m: "0 < m"
  shows "\<exists>y. round_double (of_int n / of_int m) = Some y \<and>
     round_half_even y = round_half_even (of_int n / of_int m)"
proof -
  define x :: rat where "x = of_int n / of_int m"
  define L where "L = ilog2 x"
  define e where "e = max (L - 52) (- 1074)"
  define z where "z = x / pow2 e"
  define M where "M = round_half_even z"
  define y where "y = of_int M * pow2 e"
  define k where "k = round_half_even x"
  have mpos: "(0::rat) < of_int m" using m by simp
  have npos: "(0::rat) < of_int n" using n by simp
  have xpos: "0 < x" using mpos npos by (simp add: x_def)
  have x_le_n: "x \<le> of_int n"
  proof -
    have "(1::rat) \<le> of_int m" using m by simp
    then have "of_int n / of_int m \<le> of_int n / (1::rat)"
      using npos by (intro divide_left_mono) auto
    then show ?thesis by (simp add: x_def)
  qed
  have n52: "(of_int n :: rat) < 2 ^ 52"
  proof -
    have "(of_int n :: rat) < of_int (2 ^ 52)" using n(2) by (simp only: of_int_less_iff)
    then show ?thesis by simp
  qed
  have x52: "x < pow2 52" using x_le_n n52 by (simp add: pow2_def)
  note il = ilog2_bounds [OF xpos, folded L_def]
  have L: "L < 52"
  proof (rule ccontr)
    assume "\<not> L < 52"
    then have "pow2 52 \<le> pow2 L" by (intro pow2_mono) simp
    with il(1) x52 show False by simp
  qed
  have e_le: "e \<le> - 1" using L by (simp add: e_def)
  have e_ge: "L - 52 \<le> e" by (simp add: e_def)
  have zpos: "0 < z" using xpos pow2_pos [of e] by (simp add: z_def)
  have z53: "z < pow2 53"
  proof -
    have "x < pow2 (L + 1)" using il(2) .
    also have "\<dots> \<le> pow2 (53 + e)" using e_ge by (intro pow2_mono) simp
    also have "\<dots> = pow2 53 * pow2 e" by (rule pow2_add)
    finally show ?thesis using pow2_pos [of e] by (simp add: z_def pos_divide_less_eq)
  qed
  have Mz: "\<bar>of_int M - z\<bar> \<le> 1 / 2" unfolding M_def by (rule rhe_near)
  have M0: "0 \<le> M"
  proof -
    have "(- 1 :: rat) < of_int M" using Mz zpos by linarith
    then have "(of_int (- 1) :: rat) < of_int M" by simp
    then have "- 1 < M" by (simp only: of_int_less_iff)
    then show ?thesis by simp
  qed
  have M54: "M < 2 ^ 54"
  proof -
    have "of_int M < pow2 53 + 1" using Mz z53 by linarith
    also have "\<dots> = of_int (2 ^ 53 + 1)" by (simp add: pow2_def)
    finally have "M < 2 ^ 53 + 1" by (simp only: of_int_less_iff)
    then show ?thesis by simp
  qed
  have "bitlen M \<le> 54" using bitlen_le [OF M0 M54] by simp
  then have noov: "\<not> 1024 < bitlen M + e" using e_le by simp
  have rd: "round_double x = Some y"
    using xpos noov unfolding round_double_def Let_def y_def M_def z_def e_def L_def
    by simp
  have yx: "\<bar>y - x\<bar> \<le> pow2 e / 2"
  proof -
    have "x = z * pow2 e" using pow2_pos [of e] by (simp add: z_def)
    then have "y - x = (of_int M - z) * pow2 e" by (simp add: y_def algebra_simps)
    then have "\<bar>y - x\<bar> = \<bar>of_int M - z\<bar> * pow2 e"
      using pow2_pos [of e] by (simp add: abs_mult)
    also have "\<dots> \<le> (1 / 2) * pow2 e"
      using Mz pow2_pos [of e] by (intro mult_right_mono) auto
    finally show ?thesis by simp
  qed
  have "round_half_even y = k"
  proof (cases "L - 52 < - 1074")
    case True
    then have e: "e = - 1074" by (simp add: e_def)
    have "x < pow2 (L + 1)" using il(2) .
    also have "\<dots> \<le> pow2 (- 2)" using True by (intro pow2_mono) simp
    finally have x4: "x < 1 / 4" by (simp add: pow2_def)
    have "pow2 e \<le> pow2 (- 2)" unfolding e by (intro pow2_mono) simp
    then have "pow2 e \<le> 1 / 4" by (simp add: pow2_def)
    with yx x4 xpos have "\<bar>y\<bar> < 1 / 2" by linarith
    then have "\<bar>y - of_int 0\<bar> < 1 / 2" by simp
    then have "round_half_even y = 0" by (rule rhe_unique)
    moreover have "\<bar>x - of_int 0\<bar> < 1 / 2" using x4 xpos by simp
    then have "k = 0" unfolding k_def by (rule rhe_unique)
    ultimately show ?thesis by simp
  next
    case False
    then have e: "e = L - 52" by (simp add: e_def)
    have lo: "pow2 (e + 52) \<le> x" using il(1) by (simp add: e)
    have err: "\<bar>y - x\<bar> < 1 / (2 * of_int m)"
    proof -
      have p52: "pow2 52 = 2 ^ 52" by (simp add: pow2_def)
      have "pow2 (e + 52) = pow2 e * 2 ^ 52" unfolding pow2_add p52 ..
      then have "pow2 e / 2 = pow2 (e + 52) / 2 ^ 53" by simp
      also have "\<dots> \<le> x / 2 ^ 53" using lo by (simp add: divide_right_mono)
      also have "\<dots> = (of_int n / 2 ^ 53) / of_int m" by (simp add: x_def)
      also have "\<dots> < (1 / 2) / of_int m"
        using mpos n52 by (intro divide_strict_right_mono) auto
      finally show ?thesis using yx by simp
    qed
    define t where "t = 2 * n - 2 * k * m"
    have xk: "x - of_int k = of_int t / (2 * of_int m)"
      using mpos by (simp add: x_def t_def field_simps)
    have "\<bar>x - of_int k\<bar> \<le> 1 / 2"
      using rhe_near [of x] by (simp add: k_def abs_minus_commute)
    then have "\<bar>of_int t :: rat\<bar> \<le> of_int m"
      using mpos by (simp add: xk field_simps)
    then have tm: "\<bar>t\<bar> \<le> m" by (simp only: of_int_abs [symmetric] of_int_le_iff)
    show ?thesis
    proof (cases "\<bar>t\<bar> = m")
      case True
      define j where "j = 2 * k + (if t = m then 1 else - 1)"
      have "of_int t = (of_int m :: rat) * (if t = m then 1 else - 1)"
        using True by (auto simp: abs_if split: if_splits)
      then have "x - of_int k = (if t = m then 1 else - 1) / 2"
        using mpos by (simp add: xk)
      then have x2: "2 * x = of_int j" by (simp add: j_def field_simps)
      have p1: "pow2 1 = 2" by (simp add: pow2_def)
      have "z = x * pow2 (- e)"
        using pow2_inverse [of e] pow2_pos [of e] by (simp add: z_def field_simps)
      also have "pow2 (- e) = pow2 (1 + (- e - 1))" by simp
      also have "\<dots> = 2 * pow2 (- e - 1)" unfolding pow2_add p1 ..
      also have "pow2 (- e - 1) = of_int (2 ^ nat (- e - 1))"
        using e_le by (simp add: pow2_def)
      finally have zi: "z = of_int (j * 2 ^ nat (- e - 1))"
        using x2 by (simp add: algebra_simps)
      have "of_int M = z" unfolding M_def by (subst (1 2) zi) (simp only: rhe_of_int)
      then have "y = x" using pow2_pos [of e] by (simp add: y_def z_def)
      then show ?thesis by (simp add: k_def)
    next
      case False
      with tm have "\<bar>t\<bar> \<le> m - 1" by simp
      then have "(of_int \<bar>t\<bar> :: rat) \<le> of_int (m - 1)" by (simp only: of_int_le_iff)
      then have "\<bar>of_int t :: rat\<bar> \<le> of_int m - 1" by simp
      then have "\<bar>x - of_int k\<bar> \<le> 1 / 2 - 1 / (2 * of_int m)"
        using mpos by (simp add: xk field_simps)
      with err have "\<bar>y - of_int k\<bar> < 1 / 2" by linarith
      then show ?thesis by (rule rhe_unique)
    qed
  qed
  with rd show ?thesis by (auto simp: x_def k_def)
qed

lemma int_truediv_small:
  assumes "m \<noteq> 0" "\<bar>n\<bar> < 2 ^ 52"
  shows "\<exists>f q. int_truediv n m = Inr f \<and> py_round (NFloat f) = Inr q \<and>
     \<bar>of_int q - of_int n / of_int m\<bar> \<le> (1 / 2 :: rat)"
proof (cases "n = 0")
  case True
  then show ?thesis
    using assms(1)
    by (simp add: int_truediv_def round_double_def py_round_def round_half_even_def)
next
  case False
  define x :: rat where "x = of_int \<bar>n\<bar> / of_int \<bar>m\<bar>"
  from False assms have "0 < \<bar>n\<bar>" "\<bar>n\<bar> < 2 ^ 52" "0 < \<bar>m\<bar>" by simp_all
  from round_double_small [OF this] obtain y where
    y: "round_double x = Some y" "round_half_even y = round_half_even x"
    by (auto simp: x_def)
  define sg where "sg = ((n < 0) \<noteq> (m < 0))"
  have f: "int_truediv n m = Inr (Finite sg y)"
    using assms(1) y(1) by (simp add: int_truediv_def x_def sg_def)
  have q: "py_round (NFloat (Finite sg y)) =
      Inr (if sg then - round_half_even x else round_half_even x)"
    by (simp add: py_round_def y(2))
  have sx: "(of_int n / of_int m :: rat) = (if sg then - x else x)"
    using assms(1) False by (auto simp: x_def sg_def abs_if)
  have "\<bar>of_int (if sg then - round_half_even x else round_half_even x) -
      of_int n / of_int m\<bar> \<le> (1 / 2 :: rat)"
    using rhe_near [of x] by (auto simp: sx abs_minus_commute)
  with f q show ?thesis by blast
qed

lemma py_split_two:
  "c \<notin> set a \<Longrightarrow> c \<notin> set b \<Longrightarrow> py_split c (a @ c # b) = [a, b]"
  by (simp add: py_split_first py_split_no_sep)

lemma FFStream_init_snoc:
  "FFStream_init maxd (ls @ [line]) =
     (case FFStream_init maxd ls of Inl e \<Rightarrow> Inl e | Inr d0 \<Rightarrow> FFStream_line maxd d0 line)"
  by (simp add: FFStream_init_def for_each_append split: sum.splits)

lemma framerate_expr_quotient:
  assumes "dict_get d ''avg_frame_rate'' (PyStr []) = PyStr (a @ ''/'' @ b)"
    and "CHR ''/'' \<notin> set a" "CHR ''/'' \<notin> set b"
  shows "framerate_expr maxd d =
     (case py_int maxd a of
        None \<Rightarrow> Inl ValueError
      | Some n \<Rightarrow>
          (case py_int maxd b of
             None \<Rightarrow> Inl ValueError
           | Some m \<Rightarrow>
               (case int_truediv n m of
                  Inl e \<Rightarrow> Inl e
                | Inr f \<Rightarrow> py_round (NFloat f))))"
  using assms py_split_two [of "CHR ''/''" a b]
  by (simp add: framerate_expr_def truediv_def split: option.splits sum.splits)

lemma framerate_expr_single:
  assumes "dict_get d ''avg_frame_rate'' (PyStr []) = PyStr s" and "CHR ''/'' \<notin> set s"
  shows "framerate_expr maxd d =
     (case py_int maxd s of None \<Rightarrow> Inl ValueError | Some n \<Rightarrow> Inr n)"
  using assms
  by (simp add: framerate_expr_def py_split_no_sep py_round_def split: option.splits)

text \<open>
  C8, as amended. When a body line has been decoded, the frame rate is derived from the
  raw \<^verbatim>\<open>avg_frame_rate\<close> field that the dictionary then holds. The two sides of a field
  \<^verbatim>\<open>numerator/denominator\<close> are parsed by \<^verbatim>\<open>int\<close> and divided by \<^verbatim>\<open>truediv\<close>, which gives
  the double nearest to the quotient, and \<^verbatim>\<open>round\<close> is applied to that double. When the
  denominator is not zero and the numerator is below \<open>2^52\<close> in size, \<^verbatim>\<open>framerate\<close> is
  an integer nearest to the exact quotient. When a side is refused by \<^verbatim>\<open>int\<close> or the
  denominator is zero, and when the field has no \<^verbatim>\<open>/\<close> and is refused by \<^verbatim>\<open>int\<close>, as the
  empty string of an absent field is, \<^verbatim>\<open>framerate\<close> is set to \<^verbatim>\<open>None\<close>. In each of these
  cases the line raises nothing.
\<close>

theorem framerate_derivation:
  assumes "FFStream_init maxd ls = Inr d0" and "stream_field line = Inr (k, v)"
    and "dict_get (AList.update k (PyStr v) d0) ''avg_frame_rate'' (PyStr []) = PyStr s"
  shows "(s = a @ ''/'' @ b \<and> CHR ''/'' \<notin> set a \<and> CHR ''/'' \<notin> set b \<and>
       py_int maxd a = Some n \<and> py_int maxd b = Some m \<and> m \<noteq> 0 \<and> \<bar>n\<bar> < 2 ^ 52 \<longrightarrow>
       (\<exists>q. FFStream_init maxd (ls @ [line]) =
            Inr (AList.update ''framerate'' (PyInt q) (AList.update k (PyStr v) d0)) \<and>
          \<bar>of_int q - of_int n / of_int m\<bar> \<le> (1 / 2 :: rat))) \<and>
     (s = a @ ''/'' @ b \<and> CHR ''/'' \<notin> set a \<and> CHR ''/'' \<notin> set b \<and>
       (py_int maxd a = None \<or> py_int maxd b = None \<or> py_int maxd b = Some 0) \<longrightarrow>
       FFStream_init maxd (ls @ [line]) =
         Inr (AList.update ''framerate'' PyNone (AList.update k (PyStr v) d0))) \<and>
     (CHR ''/'' \<notin> set s \<and> py_int maxd s = None \<longrightarrow>
       FFStream_init maxd (ls @ [line]) =
         Inr (AList.update ''framerate'' PyNone (AList.update k (PyStr v) d0)))"
proof -
  define d1 where "d1 = AList.update k (PyStr v) d0"
  have step: "FFStream_init maxd (ls @ [line]) =
      (case framerate_expr maxd d1 of
         Inr q \<Rightarrow> Inr (AList.update ''framerate'' (PyInt q) d1)
       | Inl e \<Rightarrow>
           if e = ValueError \<or> e = ZeroDivisionError
           then Inr (AList.update ''framerate'' PyNone d1) else Inl e)"
    unfolding d1_def
    by (simp add: FFStream_init_snoc assms(1,2) FFStream_line_def Let_def)
  note avg = assms(3) [folded d1_def]
  have one: "\<exists>q. FFStream_init maxd (ls @ [line]) = Inr (AList.update ''framerate'' (PyInt q) d1) \<and>
      \<bar>of_int q - of_int n / of_int m\<bar> \<le> (1 / 2 :: rat)"
    if "s = a @ ''/'' @ b" "CHR ''/'' \<notin> set a" "CHR ''/'' \<notin> set b"
      "py_int maxd a = Some n" "py_int maxd b = Some m" "m \<noteq> 0" "\<bar>n\<bar> < 2 ^ 52"
  proof -
    from int_truediv_small [OF that(6,7)] obtain f q where
      fq: "int_truediv n m = Inr f" "py_round (NFloat f) = Inr q"
      "\<bar>of_int q - of_int n / of_int m\<bar> \<le> (1 / 2 :: rat)" by blast
    have "framerate_expr maxd d1 = Inr q"
      using framerate_expr_quotient [OF avg [unfolded that(1)] that(2,3), of maxd]
      by (simp add: that(4,5) fq)
    with fq(3) show ?thesis by (auto simp: step)
  qed
  have two: "FFStream_init maxd (ls @ [line]) = Inr (AList.update ''framerate'' PyNone d1)"
    if "s = a @ ''/'' @ b" "CHR ''/'' \<notin> set a" "CHR ''/'' \<notin> set b"
      "py_int maxd a = None \<or> py_int maxd b = None \<or> py_int maxd b = Some 0"
  proof -
    have "framerate_expr maxd d1 = Inl ValueError \<or>
        framerate_expr maxd d1 = Inl ZeroDivisionError"
      using framerate_expr_quotient [OF avg [unfolded that(1)] that(2,3), of maxd] that(4)
      by (auto simp: int_truediv_def split: option.splits)
    then show ?thesis by (auto simp: step)
  qed
  have three: "FFStream_init maxd (ls @ [line]) = Inr (AList.update ''framerate'' PyNone d1)"
    if "CHR ''/'' \<notin> set s" "py_int maxd s = None"
    using framerate_expr_single [OF avg that(1), of maxd] that(2) by (simp add: step)
  from one two three show ?thesis unfolding d1_def by blast
qed

lemma framerate_example:
  "FFStream_init 0 [''index=0''] = Inr [(''index'', PyStr ''0''), (''framerate'', PyNone)]"
  "stream_field ''avg_frame_rate=24000/1001'' = Inr (''avg_frame_rate'', ''24000/1001'')"
  "stream_field ''avg_frame_rate=30/0'' = Inr (''avg_frame_rate'', ''30/0'')"
  "stream_field ''avg_frame_rate='' = Inr (''avg_frame_rate'', [])"
  "py_int 0 ''24000'' = Some 24000" "py_int 0 ''1001'' = Some 1001"
  "py_int 0 ''0'' = Some 0"
  by code_simp+

theorem framerate_derivation_witness:
  "FFStream_init 0 [''index=0'', ''avg_frame_rate=24000/1001''] =
     Inr [(''index'', PyStr ''0''), (''framerate'', PyInt 24),
          (''avg_frame_rate'', PyStr ''24000/1001'')] \<and>
   FFStream_init 0 [''index=0'', ''avg_frame_rate=30/0''] =
     Inr [(''index'', PyStr ''0''), (''framerate'', PyNone),
          (''avg_frame_rate'', PyStr ''30/0'')] \<and>
   FFStream_init 0 [''index=0'', ''avg_frame_rate=''] =
     Inr [(''index'', PyStr ''0''), (''framerate'', PyNone), (''avg_frame_rate'', PyStr [])]"
proof -
  let ?d0 = "[(''index'', PyStr ''0''), (''framerate'', PyNone)]"
  have g1: "dict_get (AList.update ''avg_frame_rate'' (PyStr ''24000/1001'') ?d0)
      ''avg_frame_rate'' (PyStr []) = PyStr ''24000/1001''"
    and g2: "dict_get (AList.update ''avg_frame_rate'' (PyStr ''30/0'') ?d0)
      ''avg_frame_rate'' (PyStr []) = PyStr ''30/0''"
    and g3: "dict_get (AList.update ''avg_frame_rate'' (PyStr []) ?d0)
      ''avg_frame_rate'' (PyStr []) = PyStr []"
    by (simp_all add: dict_get_def)
  have h1: "''24000/1001'' = ''24000'' @ ''/'' @ ''1001'' \<and> CHR ''/'' \<notin> set ''24000'' \<and>
      CHR ''/'' \<notin> set ''1001'' \<and> py_int 0 ''24000'' = Some 24000 \<and>
      py_int 0 ''1001'' = Some 1001 \<and> (1001::int) \<noteq> 0 \<and> \<bar>24000::int\<bar> < 2 ^ 52"
    by (simp add: framerate_example)
  have h2: "''30/0'' = ''30'' @ ''/'' @ ''0'' \<and> CHR ''/'' \<notin> set ''30'' \<and>
      CHR ''/'' \<notin> set ''0'' \<and>
      (py_int 0 ''30'' = None \<or> py_int 0 ''0'' = None \<or> py_int 0 ''0'' = Some 0)"
    by (simp add: framerate_example)
  have h3: "CHR ''/'' \<notin> set [] \<and> py_int 0 [] = None"
    by (simp add: py_int_empty)
  from framerate_derivation [OF framerate_example(1) framerate_example(2) g1,
      of "''24000''" "''1001''" 24000 1001] h1
  obtain q where q: "FFStream_init 0 ([''index=0''] @ [''avg_frame_rate=24000/1001'']) =
      Inr (AList.update ''framerate'' (PyInt q)
        (AList.update ''avg_frame_rate'' (PyStr ''24000/1001'') ?d0))"
    and near: "\<bar>of_int q - of_int 24000 / of_int 1001\<bar> \<le> (1 / 2 :: rat)"
    by blast
  from near have "\<bar>(of_int q :: rat) - 24000 / 1001\<bar> \<le> 1 / 2" by simp
  then have "(23 :: rat) < of_int q" "(of_int q :: rat) < 25" by linarith+
  then have "(of_int 23 :: rat) < of_int q" "(of_int q :: rat) < of_int 25" by simp_all
  then have "23 < q" "q < 25" by (simp_all only: of_int_less_iff)
  then have q24: "q = 24" by simp
  from framerate_derivation [OF framerate_example(1) framerate_example(3) g2,
      of "''30''" "''0''"] h2
  have r2: "FFStream_init 0 ([''index=0''] @ [''avg_frame_rate=30/0'']) =
      Inr (AList.update ''framerate'' PyNone
        (AList.update ''avg_frame_rate'' (PyStr ''30/0'') ?d0))"
    by blast
  from framerate_derivation [OF framerate_example(1) framerate_example(4) g3] h3
  have r3: "FFStream_init 0 ([''index=0''] @ [''avg_frame_rate='']) =
      Inr (AList.update ''framerate'' PyNone
        (AList.update ''avg_frame_rate'' (PyStr []) ?d0))"
    by blast
  from q r2 r3 show ?thesis by (simp add: q24)
qed

text \<open>
  A numerator of 52 bits and more: the double nearest to \<open>6755399441055748 / 3\<close> is
  \<open>2251799813685249.5\<close>, which \<^verbatim>\<open>round\<close> takes to the even integer \<open>2251799813685250\<close>,
  while the integer nearest to the quotient is \<open>2251799813685249\<close>.
\<close>

theorem framerate_nearest_integer_counterexample:
  "FFStream_init 0 [''avg_frame_rate=6755399441055748/3''] =
     Inr [(''avg_frame_rate'', PyStr ''6755399441055748/3''),
          (''framerate'', PyInt 2251799813685250)] \<and>
   \<not> \<bar>(2251799813685250 :: rat) - 6755399441055748 / 3\<bar> \<le> 1 / 2 \<and>
   \<bar>(2251799813685249 :: rat) - 6755399441055748 / 3\<bar> \<le> 1 / 2"
proof -
  have "FFStream_init 0 [''avg_frame_rate=6755399441055748/3''] =
     Inr [(''avg_frame_rate'', PyStr ''6755399441055748/3''),
          (''framerate'', PyInt 2251799813685250)]"
    by code_simp
  then show ?thesis by simp
qed

end
